theory Spec2Isabelle
  imports Main "HOL-Library.AList"
begin

section \<open>JSON values as the relay sees them\<close>

text \<open>
  The relay (\<^verbatim>\<open>src/services/websocketService.js\<close>) works on values produced by
  \<^verbatim>\<open>JSON.parse\<close>. A \<open>JObj\<close> lists its fields, each name once, in JavaScript's property
  enumeration order: names that are array indices first, in ascending order, then the other
  names in the order of the JSON text. A number is given by the text JavaScript prints for
  it (\<^verbatim>\<open>String(n)\<close>: \<^verbatim>\<open>5\<close>, \<^verbatim>\<open>-0.5\<close>, \<^verbatim>\<open>1e+21\<close>, and \<^verbatim>\<open>Infinity\<close> for a literal that overflows); that
  text determines the number, \<^verbatim>\<open>-0\<close> prints as \<^verbatim>\<open>0\<close> and is the same \<^verbatim>\<open>Map\<close> key as \<^verbatim>\<open>0\<close>, and
  \<^verbatim>\<open>NaN\<close> is never parsed. The JavaScript value \<^verbatim>\<open>undefined\<close> is \<open>None\<close> of \<open>json option\<close>.
\<close>

datatype json =
    JNull
  | JBool bool
  | JNum string
  | JStr string
  | JArr "json list"
  | JObj "(string \<times> json) list"

text \<open>JavaScript truthiness, as used by \<^verbatim>\<open>if (x)\<close>, \<^verbatim>\<open>!x\<close> and \<^verbatim>\<open>a && b\<close>.\<close>

fun truthy :: "json option \<Rightarrow> bool" where
  "truthy None = False"
| "truthy (Some JNull) = False"
| "truthy (Some (JBool b)) = b"
| "truthy (Some (JNum n)) = (n \<noteq> ''0'')"
| "truthy (Some (JStr s)) = (s \<noteq> [])"
| "truthy (Some (JArr xs)) = True"
| "truthy (Some (JObj fs)) = True"

text \<open>
  Property read \<^verbatim>\<open>v.name\<close> on a value that is neither \<^verbatim>\<open>null\<close> nor \<^verbatim>\<open>undefined\<close>, for the
  names the relay reads (\<^verbatim>\<open>type\<close>, \<^verbatim>\<open>channel\<close>, \<^verbatim>\<open>params\<close>, \<^verbatim>\<open>market_id\<close>, \<^verbatim>\<open>tokens\<close>,
  \<^verbatim>\<open>token_id\<close>, \<^verbatim>\<open>outcome\<close>): none of them is inherited from a prototype, so only an object
  with that field answers. Reading a property of \<^verbatim>\<open>null\<close> or \<^verbatim>\<open>undefined\<close> throws a
  TypeError; \<open>nullish\<close> is the test the callers make before \<open>get_prop\<close>.
\<close>

fun get_prop :: "json \<Rightarrow> string \<Rightarrow> json option" where
  "get_prop (JObj fs) name = map_of fs name"
| "get_prop _ name = None"

fun nullish :: "json option \<Rightarrow> bool" where
  "nullish None = True"
| "nullish (Some JNull) = True"
| "nullish (Some _) = False"

fun get_prop_opt :: "json option \<Rightarrow> string \<Rightarrow> json option" where
  "get_prop_opt None name = None"
| "get_prop_opt (Some v) name = get_prop v name"

text \<open>An object literal as \<^verbatim>\<open>JSON.stringify\<close> emits it: a field whose value is undefined is omitted.\<close>

fun js_object :: "(string \<times> json option) list \<Rightarrow> json" where
  "js_object fs = JObj (concat (map (\<lambda>kv. case snd kv of None \<Rightarrow> [] | Some v \<Rightarrow> [(fst kv, v)]) fs))"

subsection \<open>String rendering\<close>

fun join :: "string \<Rightarrow> string list \<Rightarrow> string" where
  "join sep [] = []"
| "join sep [x] = x"
| "join sep (x # y # r) = x @ sep @ join sep (y # r)"

text \<open>The escapes of \<^verbatim>\<open>JSON.stringify\<close> for one character of a string.\<close>

definition json_escape :: "char \<Rightarrow> string" where
  "json_escape c =
     (if c = CHR 0x22 then [CHR 0x5C, CHR 0x22]
      else if c = CHR 0x5C then [CHR 0x5C, CHR 0x5C]
      else if c = CHR 0x08 then [CHR 0x5C, CHR ''b'']
      else if c = CHR 0x09 then [CHR 0x5C, CHR ''t'']
      else if c = CHR 0x0A then [CHR 0x5C, CHR ''n'']
      else if c = CHR 0x0C then [CHR 0x5C, CHR ''f'']
      else if c = CHR 0x0D then [CHR 0x5C, CHR ''r'']
      else if (of_char c :: nat) < 32
        then [CHR 0x5C, CHR ''u'', CHR ''0'', CHR ''0'',
              ''0123456789abcdef'' ! ((of_char c :: nat) div 16),
              ''0123456789abcdef'' ! ((of_char c :: nat) mod 16)]
      else [c])"

definition quote :: "string \<Rightarrow> string" where
  "quote s = CHR 0x22 # concat (map json_escape s) @ [CHR 0x22]"

text \<open>
  \<^verbatim>\<open>JSON.stringify(v)\<close> for a parsed value; a number that is not finite is written \<^verbatim>\<open>null\<close>.
  (No parsed value has a callable \<^verbatim>\<open>toJSON\<close>, so nothing here throws.)
\<close>

fun stringify :: "json \<Rightarrow> string" where
  "stringify JNull = ''null''"
| "stringify (JBool b) = (if b then ''true'' else ''false'')"
| "stringify (JNum n) = (if n = ''Infinity'' \<or> n = ''-Infinity'' then ''null'' else n)"
| "stringify (JStr s) = quote s"
| "stringify (JArr xs) = ''['' @ join '','' (map stringify xs) @ '']''"
| "stringify (JObj fs) =
     ''{'' @ join '','' (map (\<lambda>kv. quote (fst kv) @ '':'' @ stringify (snd kv)) fs) @ ''}''"

text \<open>
  String conversion as a template literal \<^verbatim>\<open>`${v}`\<close> performs it; \<open>None\<close> is the TypeError it
  throws. An array joins its elements with commas (\<^verbatim>\<open>null\<close> elements as the empty string). An
  object is \<^verbatim>\<open>[object Object]\<close>, unless it has a field of its own named \<^verbatim>\<open>toString\<close>: that
  field hides the inherited method, is not callable, and the conversion throws.
\<close>

fun sequence :: "'a option list \<Rightarrow> 'a list option" where
  "sequence [] = Some []"
| "sequence (None # r) = None"
| "sequence (Some x # r) = map_option ((#) x) (sequence r)"

fun to_str :: "json \<Rightarrow> string option" where
  "to_str JNull = Some ''null''"
| "to_str (JBool b) = Some (if b then ''true'' else ''false'')"
| "to_str (JNum n) = Some n"
| "to_str (JStr s) = Some s"
| "to_str (JArr xs) =
     map_option (join '','') (sequence (map (\<lambda>x. if x = JNull then Some [] else to_str x) xs))"
| "to_str (JObj fs) = (if map_of fs ''toString'' = None then Some ''[object Object]'' else None)"

fun template :: "json option \<Rightarrow> string option" where
  "template None = Some ''undefined''"
| "template (Some v) = to_str v"

text \<open>\<^verbatim>\<open>`${JSON.stringify(v)}`\<close>: \<^verbatim>\<open>JSON.stringify(undefined)\<close> is \<^verbatim>\<open>undefined\<close>.\<close>

fun template_stringify :: "json option \<Rightarrow> string" where
  "template_stringify None = ''undefined''"
| "template_stringify (Some v) = stringify v"

section \<open>The service state\<close>

text \<open>
  JavaScript's \<^verbatim>\<open>Map\<close> and \<^verbatim>\<open>Set\<close> iterate in insertion order. A \<^verbatim>\<open>Map\<close> is an association
  list: \<^verbatim>\<open>get\<close> is \<open>map_of\<close>, \<^verbatim>\<open>set\<close> is \<open>AList.update\<close> (an existing key keeps its place, a new
  one goes last), \<^verbatim>\<open>delete\<close> is \<open>AList.delete\<close>. A \<^verbatim>\<open>Set\<close> is a list without repetition:
  \<^verbatim>\<open>add\<close> is \<open>set_add\<close>, \<^verbatim>\<open>delete\<close> is \<open>removeAll\<close>, \<^verbatim>\<open>size\<close> is \<open>length\<close>.
\<close>

definition set_add :: "'a \<Rightarrow> 'a list \<Rightarrow> 'a list" where
  "set_add x xs = (if x \<in> set xs then xs else xs @ [x])"

type_synonym cid = string

text \<open>
  A \<^verbatim>\<open>Map\<close> compares keys with SameValueZero: strings, numbers and booleans by value, an
  object or array by identity. Every \<^verbatim>\<open>JSON.parse\<close> makes new objects, so an object-valued
  \<^verbatim>\<open>market_id\<close> is a key of its own: \<open>Ref n v\<close> is the object allocated as number \<open>n\<close> with
  content \<open>v\<close>.
\<close>

datatype mkey = Prim json | Ref nat json

fun market_key :: "nat \<Rightarrow> json \<Rightarrow> mkey" where
  "market_key n (JArr xs) = Ref n (JArr xs)"
| "market_key n (JObj fs) = Ref n (JObj fs)"
| "market_key n v = Prim v"

fun key_json :: "mkey \<Rightarrow> json" where
  "key_json (Prim v) = v"
| "key_json (Ref n v) = v"

fun is_ref :: "mkey \<Rightarrow> bool" where
  "is_ref (Prim v) = False"
| "is_ref (Ref n v) = True"

text \<open>What the service writes with \<^verbatim>\<open>console.log\<close>, \<^verbatim>\<open>console.warn\<close> and \<^verbatim>\<open>console.error\<close>.\<close>

datatype log_entry =
    ClientConnected
  | MessageError string
  | ClientDisconnected
  | UnknownMessageType "json option"
  | OrderbookSubscribed cid mkey
  | OrderbookUnsubscribed cid mkey
  | PollingStarted mkey
  | PollingStopped mkey
  | MarketNotFound mkey
  | PollError mkey string
  | UpstreamConnected
  | UpstreamMessageError
  | UpstreamClosed

text \<open>
  One entry of \<^verbatim>\<open>this.clients\<close>: \<open>ws_open\<close> is \<^verbatim>\<open>ws.readyState === WebSocket.OPEN\<close>,
  \<open>subscriptions\<close> the \<^verbatim>\<open>Set\<close> of subscription keys.
\<close>

record client =
  ws_open :: bool
  subscriptions :: "string list"

text \<open>
  The fields of \<^verbatim>\<open>WebSocketService\<close> and the part of the runtime it acts on:
  \<open>timers\<close> are the live \<^verbatim>\<open>setInterval\<close> timers (id and the market its callback polls),
  \<open>in_flight\<close> the \<^verbatim>\<open>pollOrderbook\<close> calls that have started and not yet returned,
  \<open>sent\<close> the frames written with \<^verbatim>\<open>client.ws.send(JSON.stringify(data))\<close> (receiver and
  \<open>data\<close>), \<open>upstream_sent\<close> the channel and params of each subscribe frame written to the
  upstream socket, \<open>reconnects\<close> the pending \<^verbatim>\<open>setTimeout\<close> reconnections.
  \<open>polymarketWs\<close> is \<open>None\<close> for \<^verbatim>\<open>null\<close>, else whether its \<^verbatim>\<open>readyState\<close> is \<^verbatim>\<open>OPEN\<close>.
\<close>

record service =
  clients :: "(cid \<times> client) list"
  polymarketWs :: "bool option"
  orderbookSubscriptions :: "(mkey \<times> cid list) list"
  orderbookIntervals :: "(mkey \<times> nat) list"
  timers :: "(nat \<times> mkey) list"
  next_timer :: nat
  next_obj :: nat
  in_flight :: "mkey list"
  sent :: "(cid \<times> json) list"
  upstream_sent :: "(json option \<times> json option) list"
  reconnects :: nat
  console :: "log_entry list"

text \<open>The state the constructor leaves.\<close>

definition init :: service where
  "init = \<lparr> clients = [], polymarketWs = None, orderbookSubscriptions = [],
            orderbookIntervals = [], timers = [], next_timer = 0, next_obj = 0,
            in_flight = [], sent = [], upstream_sent = [], reconnects = 0, console = [] \<rparr>"

definition console_log :: "log_entry \<Rightarrow> service \<Rightarrow> service" where
  "console_log e s = s\<lparr>console := console s @ [e]\<rparr>"

text \<open>
  A call either returns or throws; a throw keeps the mutations made before it, so both
  carry the state. The string is the message of the error thrown.
\<close>

datatype 'a completion = Normal 'a | Throws string 'a

fun final_state :: "'a completion \<Rightarrow> 'a" where
  "final_state (Normal s) = s"
| "final_state (Throws e s) = s"

section \<open>The operations of \<^verbatim>\<open>WebSocketService\<close>\<close>

text \<open>\<^verbatim>\<open>sendToClient\<close>: the frame is written only to a registered client whose socket is open.\<close>

definition sendToClient :: "service \<Rightarrow> cid \<Rightarrow> json \<Rightarrow> service" where
  "sendToClient s clientId data =
     (case map_of (clients s) clientId of
        None \<Rightarrow> s
      | Some client \<Rightarrow>
          if ws_open client then s\<lparr>sent := sent s @ [(clientId, data)]\<rparr> else s)"

text \<open>
  \<^verbatim>\<open>pollOrderbook\<close> is asynchronous. Its call runs up to the first \<^verbatim>\<open>await\<close>: the request
  of \<^verbatim>\<open>gammaService.getMarket\<close> is under way and the call is in flight.
\<close>

definition pollOrderbook_call :: "service \<Rightarrow> mkey \<Rightarrow> service" where
  "pollOrderbook_call s marketId = s\<lparr>in_flight := in_flight s @ [marketId]\<rparr>"

text \<open>
  \<^verbatim>\<open>startOrderbookPolling\<close>: clear an interval already stored for the market, poll at once,
  then \<^verbatim>\<open>setInterval\<close> and store its id.
\<close>

definition startOrderbookPolling :: "service \<Rightarrow> mkey \<Rightarrow> service" where
  "startOrderbookPolling s marketId =
     (let s1 = (case map_of (orderbookIntervals s) marketId of
                  None \<Rightarrow> s
                | Some old \<Rightarrow> s\<lparr>timers := AList.delete old (timers s)\<rparr>);
          s2 = pollOrderbook_call s1 marketId;
          intervalId = next_timer s2;
          s3 = s2\<lparr>timers := timers s2 @ [(intervalId, marketId)], next_timer := Suc intervalId\<rparr>;
          s4 = s3\<lparr>orderbookIntervals := AList.update marketId intervalId (orderbookIntervals s3)\<rparr>
      in console_log (PollingStarted marketId) s4)"

text \<open>
  \<^verbatim>\<open>stopOrderbookPolling\<close>. The id \<^verbatim>\<open>setInterval\<close> returns in Node is a \<^verbatim>\<open>Timeout\<close> object,
  so \<^verbatim>\<open>if (intervalId)\<close> holds exactly when the market has an entry.
\<close>

definition stopOrderbookPolling :: "service \<Rightarrow> mkey \<Rightarrow> service" where
  "stopOrderbookPolling s marketId =
     (case map_of (orderbookIntervals s) marketId of
        None \<Rightarrow> s
      | Some intervalId \<Rightarrow>
          console_log (PollingStopped marketId)
            (s\<lparr>timers := AList.delete intervalId (timers s),
               orderbookIntervals := AList.delete marketId (orderbookIntervals s)\<rparr>))"

text \<open>
  \<^verbatim>\<open>subscribeToOrderbook\<close>. When the market has no entry, an empty set is stored and polling
  starts (which leaves \<^verbatim>\<open>orderbookSubscriptions\<close> alone), so the set the client is then
  added to is that empty set.
\<close>

definition subscribeToOrderbook :: "service \<Rightarrow> cid \<Rightarrow> mkey \<Rightarrow> service" where
  "subscribeToOrderbook s clientId marketId =
     (case map_of (orderbookSubscriptions s) marketId of
        None \<Rightarrow>
          (let s1 = startOrderbookPolling
                      (s\<lparr>orderbookSubscriptions :=
                           AList.update marketId [] (orderbookSubscriptions s)\<rparr>) marketId
           in console_log (OrderbookSubscribed clientId marketId)
                (s1\<lparr>orderbookSubscriptions :=
                      AList.update marketId (set_add clientId []) (orderbookSubscriptions s1)\<rparr>))
      | Some subscribers \<Rightarrow>
          console_log (OrderbookSubscribed clientId marketId)
            (s\<lparr>orderbookSubscriptions :=
                 AList.update marketId (set_add clientId subscribers) (orderbookSubscriptions s)\<rparr>))"

text \<open>\<^verbatim>\<open>unsubscribeFromOrderbook\<close>: the set is changed in place, and dropped with its interval when empty.\<close>

definition unsubscribeFromOrderbook :: "service \<Rightarrow> cid \<Rightarrow> mkey \<Rightarrow> service" where
  "unsubscribeFromOrderbook s clientId marketId =
     (case map_of (orderbookSubscriptions s) marketId of
        None \<Rightarrow> s
      | Some subscribers \<Rightarrow>
          (let subscribers' = removeAll clientId subscribers;
               s1 = console_log (OrderbookUnsubscribed clientId marketId)
                      (s\<lparr>orderbookSubscriptions :=
                           AList.update marketId subscribers' (orderbookSubscriptions s)\<rparr>)
           in if length subscribers' = 0
              then (let s2 = stopOrderbookPolling s1 marketId
                    in s2\<lparr>orderbookSubscriptions :=
                            AList.delete marketId (orderbookSubscriptions s2)\<rparr>)
              else s1))"

text \<open>
  \<^verbatim>\<open>cleanupClientSubscriptions\<close>: \<^verbatim>\<open>Map.forEach\<close> visits the markets in order; the callback
  removes at most the entry it is visiting, so each visit reads the set as it is then.
\<close>

definition cleanup_visit :: "cid \<Rightarrow> mkey \<Rightarrow> service \<Rightarrow> service" where
  "cleanup_visit clientId marketId s =
     (case map_of (orderbookSubscriptions s) marketId of
        None \<Rightarrow> s
      | Some subscribers \<Rightarrow>
          if clientId \<in> set subscribers then unsubscribeFromOrderbook s clientId marketId else s)"

definition cleanupClientSubscriptions :: "service \<Rightarrow> cid \<Rightarrow> service" where
  "cleanupClientSubscriptions s clientId =
     fold (cleanup_visit clientId) (map fst (orderbookSubscriptions s)) s"

subsection \<open>Message handlers\<close>

text \<open>
  \<^verbatim>\<open>handleSubscribe\<close>. The key is \<^verbatim>\<open>`${channel}:${JSON.stringify(params)}`\<close>; building it throws
  a TypeError, before anything is changed, when the channel cannot be converted to a string.
  The key is added to the client's set before \<^verbatim>\<open>params.market_id\<close> is read, and that read
  throws a TypeError when the channel is \<^verbatim>\<open>orderbook\<close> and \<^verbatim>\<open>params\<close> is \<^verbatim>\<open>undefined\<close> or \<^verbatim>\<open>null\<close>.
  A market id read from a message takes the next object number.
\<close>

definition subscriptionKey :: "json option \<Rightarrow> json option \<Rightarrow> string option" where
  "subscriptionKey channel params =
     map_option (\<lambda>text. text @ '':'' @ template_stringify params) (template channel)"

definition handleSubscribe :: "service \<Rightarrow> cid \<Rightarrow> json \<Rightarrow> service completion" where
  "handleSubscribe s clientId data =
     (case map_of (clients s) clientId of
        None \<Rightarrow> Normal s
      | Some client \<Rightarrow>
          if data = JNull then Throws ''TypeError'' s
          else
            (let channel = get_prop data ''channel'';
                 params = get_prop data ''params''
             in case subscriptionKey channel params of
                  None \<Rightarrow> Throws ''TypeError'' s
                | Some key \<Rightarrow>
            (let s1 = s\<lparr>clients := AList.update clientId
                         (client\<lparr>subscriptions := set_add key (subscriptions client)\<rparr>)
                         (clients s)\<rparr>
             in if channel = Some (JStr ''orderbook'') \<and> nullish params
                then Throws ''TypeError'' s1
                else
                  (let s2 = (if channel = Some (JStr ''orderbook'')
                                \<and> truthy (get_prop_opt params ''market_id'')
                             then (case get_prop_opt params ''market_id'' of
                                     None \<Rightarrow> s1
                                   | Some v \<Rightarrow>
                                       subscribeToOrderbook (s1\<lparr>next_obj := Suc (next_obj s1)\<rparr>)
                                         clientId (market_key (next_obj s1) v))
                             else s1);
                       s3 = (if polymarketWs s2 = Some True
                             then s2\<lparr>upstream_sent := upstream_sent s2 @ [(channel, params)]\<rparr>
                             else s2)
                   in Normal (sendToClient s3 clientId
                        (js_object [(''type'', Some (JStr ''subscribed'')),
                                    (''channel'', channel), (''params'', params)]))))))"

definition handleUnsubscribe :: "service \<Rightarrow> cid \<Rightarrow> json \<Rightarrow> service completion" where
  "handleUnsubscribe s clientId data =
     (case map_of (clients s) clientId of
        None \<Rightarrow> Normal s
      | Some client \<Rightarrow>
          if data = JNull then Throws ''TypeError'' s
          else
            (let channel = get_prop data ''channel'';
                 params = get_prop data ''params''
             in case subscriptionKey channel params of
                  None \<Rightarrow> Throws ''TypeError'' s
                | Some key \<Rightarrow>
            (let s1 = s\<lparr>clients := AList.update clientId
                         (client\<lparr>subscriptions := removeAll key (subscriptions client)\<rparr>)
                         (clients s)\<rparr>
             in if channel = Some (JStr ''orderbook'') \<and> nullish params
                then Throws ''TypeError'' s1
                else
                  (let s2 = (if channel = Some (JStr ''orderbook'')
                                \<and> truthy (get_prop_opt params ''market_id'')
                             then (case get_prop_opt params ''market_id'' of
                                     None \<Rightarrow> s1
                                   | Some v \<Rightarrow>
                                       unsubscribeFromOrderbook (s1\<lparr>next_obj := Suc (next_obj s1)\<rparr>)
                                         clientId (market_key (next_obj s1) v))
                             else s1)
                   in Normal (sendToClient s2 clientId
                        (js_object [(''type'', Some (JStr ''unsubscribed'')),
                                    (''channel'', channel), (''params'', params)]))))))"

text \<open>\<^verbatim>\<open>handleClientMessage\<close>: the \<^verbatim>\<open>switch\<close> compares \<^verbatim>\<open>data.type\<close> with \<^verbatim>\<open>===\<close>.\<close>

definition handleClientMessage :: "service \<Rightarrow> cid \<Rightarrow> json \<Rightarrow> service completion" where
  "handleClientMessage s clientId data =
     (case map_of (clients s) clientId of
        None \<Rightarrow> Normal s
      | Some client \<Rightarrow>
          if data = JNull then Throws ''TypeError'' s
          else if get_prop data ''type'' = Some (JStr ''subscribe'')
            then handleSubscribe s clientId data
          else if get_prop data ''type'' = Some (JStr ''unsubscribe'')
            then handleUnsubscribe s clientId data
          else if get_prop data ''type'' = Some (JStr ''ping'')
            then Normal (sendToClient s clientId (js_object [(''type'', Some (JStr ''pong''))]))
          else Normal (console_log (UnknownMessageType (get_prop data ''type'')) s))"

text \<open>
  What reaches a \<^verbatim>\<open>message\<close> listener: text that \<^verbatim>\<open>JSON.parse\<close> rejects, or the parsed value.
\<close>

datatype frame = Unparseable | Parsed json

text \<open>
  The \<^verbatim>\<open>message\<close> listener of a client socket: \<^verbatim>\<open>JSON.parse\<close> and \<^verbatim>\<open>handleClientMessage\<close>
  inside one \<^verbatim>\<open>try\<close>, whose \<^verbatim>\<open>catch\<close> writes the error to the console.
\<close>

definition on_message :: "service \<Rightarrow> cid \<Rightarrow> frame \<Rightarrow> service completion" where
  "on_message s clientId fr =
     (case fr of
        Unparseable \<Rightarrow> Normal (console_log (MessageError ''SyntaxError'') s)
      | Parsed data \<Rightarrow>
          (case handleClientMessage s clientId data of
             Normal s' \<Rightarrow> Normal s'
           | Throws e s' \<Rightarrow> Normal (console_log (MessageError e) s')))"

text \<open>The \<^verbatim>\<open>connection\<close> listener, with the generated client id and the clock reading.\<close>

definition on_connection :: "service \<Rightarrow> cid \<Rightarrow> string \<Rightarrow> service" where
  "on_connection s clientId now =
     (let s1 = console_log ClientConnected s;
          s2 = s1\<lparr>clients := AList.update clientId
                  \<lparr>ws_open = True, subscriptions = []\<rparr> (clients s1)\<rparr>
      in sendToClient s2 clientId
           (js_object [(''type'', Some (JStr ''connected'')),
                       (''clientId'', Some (JStr clientId)),
                       (''timestamp'', Some (JStr now))]))"

text \<open>The \<^verbatim>\<open>close\<close> listener of a client socket.\<close>

definition on_close :: "service \<Rightarrow> cid \<Rightarrow> service" where
  "on_close s clientId =
     (let s1 = cleanupClientSubscriptions (console_log ClientDisconnected s) clientId
      in s1\<lparr>clients := AList.delete clientId (clients s1)\<rparr>)"

subsection \<open>Upstream feed\<close>

definition isClientSubscribed :: "client \<Rightarrow> json \<Rightarrow> bool" where
  "isClientSubscribed client message = (length (subscriptions client) > 0)"

definition broadcastPolymarketData :: "service \<Rightarrow> json \<Rightarrow> service" where
  "broadcastPolymarketData s message =
     fold (\<lambda>entry s'. if isClientSubscribed (snd entry) message
                       then sendToClient s' (fst entry) message else s')
          (clients s) s"

definition broadcast :: "service \<Rightarrow> json \<Rightarrow> service" where
  "broadcast s data =
     fold (\<lambda>entry s'. if ws_open (snd entry)
                       then s'\<lparr>sent := sent s' @ [(fst entry, data)]\<rparr> else s')
          (clients s) s"

definition connectToPolymarket :: "service \<Rightarrow> service" where
  "connectToPolymarket s = s\<lparr>polymarketWs := Some False\<rparr>"

definition on_upstream_message :: "service \<Rightarrow> frame \<Rightarrow> service" where
  "on_upstream_message s fr =
     (case fr of
        Unparseable \<Rightarrow> console_log UpstreamMessageError s
      | Parsed message \<Rightarrow> broadcastPolymarketData s message)"

subsection \<open>The poll cycle\<close>

text \<open>How a promise settles: with a value, or rejected with an error of the given message.\<close>

datatype 'a settled = Resolved 'a | Rejected string

definition orderbookData :: "json list \<Rightarrow> json option list \<Rightarrow> json" where
  "orderbookData tokens orderbooks =
     JArr (map (\<lambda>ti. js_object
                  [(''token_id'', get_prop (fst ti) ''token_id''),
                   (''outcome'', get_prop (fst ti) ''outcome''),
                   (''orderbook'', if snd ti < length orderbooks then orderbooks ! snd ti else None)])
               (zip tokens [0..<length tokens]))"

definition orderbook_message :: "mkey \<Rightarrow> json \<Rightarrow> string \<Rightarrow> json" where
  "orderbook_message marketId data now =
     js_object [(''type'', Some (JStr ''orderbook'')),
                (''market_id'', Some (key_json marketId)),
                (''orderbook'', Some data),
                (''timestamp'', Some (JStr now))]"

text \<open>
  The rest of \<^verbatim>\<open>pollOrderbook\<close>, from the first \<^verbatim>\<open>await\<close> on, given how \<^verbatim>\<open>getMarket\<close> settled
  and how \<^verbatim>\<open>Promise.all\<close> of the \<^verbatim>\<open>getOrderbook\<close> calls settled (one result for each token).
  The state is read only after the last \<^verbatim>\<open>await\<close>. A \<^verbatim>\<open>tokens\<close> value that is no array has no
  \<^verbatim>\<open>map\<close> method and a \<^verbatim>\<open>null\<close> token no \<^verbatim>\<open>token_id\<close>: both throw a TypeError into the
  \<^verbatim>\<open>catch\<close>.
\<close>

definition pollOrderbook_resume ::
  "service \<Rightarrow> mkey \<Rightarrow> json option settled \<Rightarrow> json option list settled \<Rightarrow> string \<Rightarrow> service" where
  "pollOrderbook_resume s marketId market_r books_r now =
     (case market_r of
        Rejected e \<Rightarrow> console_log (PollError marketId e) s
      | Resolved market \<Rightarrow>
          if \<not> truthy market \<or> \<not> truthy (get_prop_opt market ''tokens'')
          then console_log (MarketNotFound marketId) s
          else
            (case get_prop_opt market ''tokens'' of
               Some (JArr tokens) \<Rightarrow>
                 if JNull \<in> set tokens then console_log (PollError marketId ''TypeError'') s
                 else
                   (case books_r of
                      Rejected e \<Rightarrow> console_log (PollError marketId e) s
                    | Resolved orderbooks \<Rightarrow>
                        (case map_of (orderbookSubscriptions s) marketId of
                           None \<Rightarrow> s
                         | Some subscribers \<Rightarrow>
                             if length subscribers > 0
                             then fold (\<lambda>clientId s'. sendToClient s' clientId
                                          (orderbook_message marketId
                                             (orderbookData tokens orderbooks) now))
                                       subscribers s
                             else s))
             | _ \<Rightarrow> console_log (PollError marketId ''TypeError'') s))"

section \<open>Events\<close>

text \<open>
  The event loop runs one listener or callback at a time. \<open>ClientNotOpen\<close> is the socket
  library moving a client's \<^verbatim>\<open>readyState\<close> away from \<^verbatim>\<open>OPEN\<close> (the closing handshake has begun;
  the \<^verbatim>\<open>close\<close> listener runs later). \<open>IntervalTick\<close> is a \<^verbatim>\<open>setInterval\<close> callback coming due,
  \<open>PollSettles\<close> an in-flight \<^verbatim>\<open>pollOrderbook\<close> call running to its end.
\<close>

datatype event =
    Connection cid string
  | ClientMessage cid frame
  | ClientClose cid
  | ClientNotOpen cid
  | IntervalTick nat
  | PollSettles mkey "json option settled" "json option list settled" string
  | UpstreamConnect
  | UpstreamOpen
  | UpstreamMessage frame
  | UpstreamClose
  | ReconnectTimeout

fun step :: "service \<Rightarrow> event \<Rightarrow> service" where
  "step s (Connection clientId now) = on_connection s clientId now"
| "step s (ClientMessage clientId fr) = final_state (on_message s clientId fr)"
| "step s (ClientClose clientId) = on_close s clientId"
| "step s (ClientNotOpen clientId) =
     (case map_of (clients s) clientId of
        None \<Rightarrow> s
      | Some client \<Rightarrow>
          s\<lparr>clients := AList.update clientId (client\<lparr>ws_open := False\<rparr>) (clients s)\<rparr>)"
| "step s (IntervalTick intervalId) =
     (case map_of (timers s) intervalId of
        None \<Rightarrow> s
      | Some marketId \<Rightarrow> pollOrderbook_call s marketId)"
| "step s (PollSettles marketId market_r books_r now) =
     (if marketId \<in> set (in_flight s)
      then pollOrderbook_resume (s\<lparr>in_flight := remove1 marketId (in_flight s)\<rparr>)
             marketId market_r books_r now
      else s)"
| "step s UpstreamConnect = connectToPolymarket s"
| "step s UpstreamOpen =
     (case polymarketWs s of
        None \<Rightarrow> s
      | Some b \<Rightarrow> console_log UpstreamConnected (s\<lparr>polymarketWs := Some True\<rparr>))"
| "step s (UpstreamMessage fr) =
     (if polymarketWs s = Some True then on_upstream_message s fr else s)"
| "step s UpstreamClose =
     (case polymarketWs s of
        None \<Rightarrow> s
      | Some b \<Rightarrow>
          console_log UpstreamClosed
            (s\<lparr>polymarketWs := Some False, reconnects := Suc (reconnects s)\<rparr>))"
| "step s ReconnectTimeout =
     (if reconnects s > 0 then connectToPolymarket (s\<lparr>reconnects := reconnects s - 1\<rparr>) else s)"

definition run :: "service \<Rightarrow> event list \<Rightarrow> service" where
  "run s es = foldl step s es"

section \<open>Notions the properties are stated with\<close>

text \<open>
  The subscribers of a market, whether a poll task is stored for it, the interval timers
  that poll it, the poll cycles in flight for it, whether a frame written to a client is
  sent at all, the registry and pool as a whole, and what a poll cycle fetched: the
  tokens and order books when every request succeeded and \<^verbatim>\<open>pollOrderbook\<close> reaches its
  broadcast, \<open>None\<close> when it logs and returns.
\<close>

definition subscribers :: "service \<Rightarrow> mkey \<Rightarrow> cid list" where
  "subscribers s m = (case map_of (orderbookSubscriptions s) m of None \<Rightarrow> [] | Some cs \<Rightarrow> cs)"

definition has_poll_task :: "service \<Rightarrow> mkey \<Rightarrow> bool" where
  "has_poll_task s m = (map_of (orderbookIntervals s) m \<noteq> None)"

definition poll_timers :: "service \<Rightarrow> mkey \<Rightarrow> (nat \<times> mkey) list" where
  "poll_timers s m = filter (\<lambda>t. snd t = m) (timers s)"

definition cycles_in_flight :: "service \<Rightarrow> mkey \<Rightarrow> nat" where
  "cycles_in_flight s m = count_list (in_flight s) m"

definition writable :: "service \<Rightarrow> cid \<Rightarrow> bool" where
  "writable s c = (case map_of (clients s) c of None \<Rightarrow> False | Some client \<Rightarrow> ws_open client)"


definition fetched ::
  "json option settled \<Rightarrow> json option list settled \<Rightarrow> (json list \<times> json option list) option" where
  "fetched market_r books_r =
     (case market_r of
        Rejected e \<Rightarrow> None
      | Resolved market \<Rightarrow>
          (case get_prop_opt market ''tokens'' of
             Some (JArr tokens) \<Rightarrow>
               if JNull \<in> set tokens then None
               else (case books_r of Rejected e \<Rightarrow> None
                     | Resolved orderbooks \<Rightarrow> Some (tokens, orderbooks))
           | _ \<Rightarrow> None))"

text \<open>
  The well-formedness every reachable state has: a market has an interval exactly when it
  has a subscriber set, every stored set is non-empty, without repetition and made of
  registered clients, and the live timers are exactly the stored intervals.
\<close>

definition registry_ok :: "service \<Rightarrow> bool" where
  "registry_ok s \<longleftrightarrow>
     (\<forall>m. (map_of (orderbookIntervals s) m = None) = (map_of (orderbookSubscriptions s) m = None)) \<and>
     (\<forall>m cs. map_of (orderbookSubscriptions s) m = Some cs \<longrightarrow>
        cs \<noteq> [] \<and> distinct cs \<and> set cs \<subseteq> fst ` set (clients s)) \<and>
     distinct (map fst (timers s)) \<and>
     (\<forall>i m. (map_of (timers s) i = Some m) = (map_of (orderbookIntervals s) m = Some i)) \<and>
     (\<forall>i m. map_of (timers s) i = Some m \<longrightarrow> i < next_timer s)"

text \<open>What a disconnecting client leaves of a subscriber set.\<close>

definition without :: "cid \<Rightarrow> cid list option \<Rightarrow> cid list option" where
  "without c v = (case v of None \<Rightarrow> None
                  | Some cs \<Rightarrow> if c \<in> set cs
                               then (if removeAll c cs = [] then None else Some (removeAll c cs))
                               else Some cs)"



fun primitive :: "json \<Rightarrow> bool" where
  "primitive (JArr xs) = False"
| "primitive (JObj fs) = False"
| "primitive v = True"

definition request :: "string \<Rightarrow> json \<Rightarrow> json \<Rightarrow> json" where
  "request type channel params =
     JObj [(''type'', JStr type), (''channel'', channel), (''params'', params)]"


text \<open>Requests and states used as concrete instances.\<close>

definition M1 :: mkey where
  "M1 = Prim (JStr ''M1'')"

definition subscribe_M1 :: json where
  "subscribe_M1 = request ''subscribe'' (JStr ''orderbook'') (JObj [(''market_id'', JStr ''M1'')])"

definition unsubscribe_M1 :: json where
  "unsubscribe_M1 = request ''unsubscribe'' (JStr ''orderbook'') (JObj [(''market_id'', JStr ''M1'')])"

definition market_M1 :: json where
  "market_M1 = JObj [(''tokens'', JArr [JObj [(''token_id'', JStr ''T1''), (''outcome'', JStr ''Yes'')]])]"

definition book_T1 :: json where
  "book_T1 = JObj [(''bids'', JArr []), (''asks'', JArr [])]"

definition update_M1 :: json where
  "update_M1 = JObj [(''type'', JStr ''orderbook''), (''market_id'', JStr ''M1''),
      (''orderbook'', JArr [JObj [(''token_id'', JStr ''T1''), (''outcome'', JStr ''Yes''),
                                  (''orderbook'', book_T1)]]),
      (''timestamp'', JStr ''t1'')]"


definition subscribed :: service where
  "subscribed = run init [Connection ''c1'' ''t0'', ClientMessage ''c1'' (Parsed subscribe_M1)]"

definition ticked :: service where
  "ticked = step subscribed (IntervalTick 0)"

definition polled :: service where
  "polled = step subscribed
     (PollSettles M1 (Resolved (Some market_M1)) (Resolved [Some book_T1]) ''t1'')"


definition closing :: service where
  "closing = step subscribed (ClientNotOpen ''c1'')"



definition feed_message :: json where
  "feed_message = JObj [(''event_type'', JStr ''book''), (''market'', JStr ''M1'')]"

definition bridge_idle :: service where
  "bridge_idle = run init [UpstreamConnect, UpstreamOpen, Connection ''c1'' ''t0'']"

definition bridged :: service where
  "bridged = run init [UpstreamConnect, UpstreamOpen, Connection ''c1'' ''t0'',
                       Connection ''c2'' ''t2'', ClientMessage ''c1'' (Parsed subscribe_M1)]"

definition bridged_closing :: service where
  "bridged_closing = step bridged (ClientNotOpen ''c1'')"




definition params_a :: json where
  "params_a = JObj [(''market_id'', JStr ''M1''), (''depth'', JNum ''5'')]"

definition params_b :: json where
  "params_b = JObj [(''depth'', JNum ''5''), (''market_id'', JStr ''M1'')]"

definition both_connected :: "event list" where
  "both_connected = [Connection ''c1'' ''t0'', Connection ''c2'' ''t2'']"



definition key_M1 :: string where
  "key_M1 = ''orderbook:{'' @ [CHR 0x22] @ ''market_id'' @ [CHR 0x22] @ '':''
              @ [CHR 0x22] @ ''M1'' @ [CHR 0x22] @ ''}''"



definition key_a :: string where
  "key_a = ''orderbook:{'' @ [CHR 0x22] @ ''market_id'' @ [CHR 0x22] @ '':''
              @ [CHR 0x22] @ ''M1'' @ [CHR 0x22] @ '','' @ [CHR 0x22] @ ''depth'' @ [CHR 0x22]
              @ '':5}''"

definition key_b :: string where
  "key_b = ''orderbook:{'' @ [CHR 0x22] @ ''depth'' @ [CHR 0x22] @ '':5,''
              @ [CHR 0x22] @ ''market_id'' @ [CHR 0x22] @ '':''
              @ [CHR 0x22] @ ''M1'' @ [CHR 0x22] @ ''}''"

section \<open>Field lemmas\<close>

lemma sendToClient_frame [simp]:
  "clients (sendToClient s c d) = clients s"
  "polymarketWs (sendToClient s c d) = polymarketWs s"
  "orderbookSubscriptions (sendToClient s c d) = orderbookSubscriptions s"
  "orderbookIntervals (sendToClient s c d) = orderbookIntervals s"
  "timers (sendToClient s c d) = timers s"
  "next_timer (sendToClient s c d) = next_timer s"
  "in_flight (sendToClient s c d) = in_flight s"
  "console (sendToClient s c d) = console s"
  by (simp_all add: sendToClient_def split: option.splits)

lemma console_log_frame [simp]:
  "clients (console_log e s) = clients s"
  "polymarketWs (console_log e s) = polymarketWs s"
  "orderbookSubscriptions (console_log e s) = orderbookSubscriptions s"
  "orderbookIntervals (console_log e s) = orderbookIntervals s"
  "timers (console_log e s) = timers s"
  "next_timer (console_log e s) = next_timer s"
  "in_flight (console_log e s) = in_flight s"
  "sent (console_log e s) = sent s"
  "console (console_log e s) = console s @ [e]"
  by (simp_all add: console_log_def)

lemma registry_ok_init: "registry_ok init"
  by (simp add: registry_ok_def init_def)

lemma registry_ok_cong:
  "registry_ok s \<Longrightarrow> fst ` set (clients s') = fst ` set (clients s) \<Longrightarrow>
   orderbookSubscriptions s' = orderbookSubscriptions s \<Longrightarrow>
   orderbookIntervals s' = orderbookIntervals s \<Longrightarrow> timers s' = timers s \<Longrightarrow>
   next_timer s' = next_timer s \<Longrightarrow> registry_ok s'"
  by (simp add: registry_ok_def)

lemma registry_ok_bound:
  "registry_ok s \<Longrightarrow> map_of (timers s) i = Some m \<Longrightarrow> i < next_timer s"
  unfolding registry_ok_def by (elim conjE) (erule allE[of _ i], erule allE[of _ m], erule mp)

lemma registry_ok_timer:
  "registry_ok s \<Longrightarrow> (map_of (timers s) i = Some m) = (map_of (orderbookIntervals s) m = Some i)"
  unfolding registry_ok_def by (elim conjE) (erule allE[of _ i], erule allE[of _ m], assumption)

lemma registry_ok_pool:
  "registry_ok s \<Longrightarrow>
     (map_of (orderbookIntervals s) m = None) = (map_of (orderbookSubscriptions s) m = None)"
  unfolding registry_ok_def by (elim conjE) (erule allE[of _ m], assumption)

lemma registry_ok_subscribers:
  "registry_ok s \<Longrightarrow> map_of (orderbookSubscriptions s) m = Some cs \<Longrightarrow>
     cs \<noteq> [] \<and> distinct cs \<and> set cs \<subseteq> fst ` set (clients s)"
  unfolding registry_ok_def by (elim conjE) (erule allE[of _ m], erule allE[of _ cs], erule mp)

lemma registry_ok_distinct: "registry_ok s \<Longrightarrow> distinct (map fst (timers s))"
  unfolding registry_ok_def by (elim conjE)

lemma map_of_snoc_fresh:
  "n \<notin> fst ` set xs \<Longrightarrow> map_of (xs @ [(n, m)]) = (map_of xs)(n \<mapsto> m)"
  by (induction xs) (auto simp: fun_eq_iff)

lemma start_frame [simp]:
  "clients (startOrderbookPolling s m) = clients s"
  "polymarketWs (startOrderbookPolling s m) = polymarketWs s"
  "orderbookSubscriptions (startOrderbookPolling s m) = orderbookSubscriptions s"
  "sent (startOrderbookPolling s m) = sent s"
  "in_flight (startOrderbookPolling s m) = in_flight s @ [m]"
  "next_timer (startOrderbookPolling s m) = Suc (next_timer s)"
  "orderbookIntervals (startOrderbookPolling s m) = AList.update m (next_timer s) (orderbookIntervals s)"
  by (simp_all add: startOrderbookPolling_def pollOrderbook_call_def Let_def split: option.splits)

lemma start_timers:
  "timers (startOrderbookPolling s m) =
     (case map_of (orderbookIntervals s) m of None \<Rightarrow> timers s | Some old \<Rightarrow> AList.delete old (timers s))
       @ [(next_timer s, m)]"
  by (simp add: startOrderbookPolling_def pollOrderbook_call_def Let_def split: option.splits)

lemma stop_frame [simp]:
  "clients (stopOrderbookPolling s m) = clients s"
  "polymarketWs (stopOrderbookPolling s m) = polymarketWs s"
  "orderbookSubscriptions (stopOrderbookPolling s m) = orderbookSubscriptions s"
  "sent (stopOrderbookPolling s m) = sent s"
  "in_flight (stopOrderbookPolling s m) = in_flight s"
  "next_timer (stopOrderbookPolling s m) = next_timer s"
  by (simp_all add: stopOrderbookPolling_def split: option.splits)

lemma delete_absent: "map_of al k = None \<Longrightarrow> AList.delete k al = al"
  by (rule delete_id) (simp add: map_of_eq_None_iff)

lemma stop_intervals [simp]:
  "orderbookIntervals (stopOrderbookPolling s m) = AList.delete m (orderbookIntervals s)"
  by (cases "map_of (orderbookIntervals s) m") (simp_all add: stopOrderbookPolling_def delete_absent)

lemma stop_timers:
  "timers (stopOrderbookPolling s m) =
     (case map_of (orderbookIntervals s) m of None \<Rightarrow> timers s | Some i \<Rightarrow> AList.delete i (timers s))"
  by (simp add: stopOrderbookPolling_def split: option.splits)

lemma subscribe_frame [simp]:
  "clients (subscribeToOrderbook s c m) = clients s"
  "polymarketWs (subscribeToOrderbook s c m) = polymarketWs s"
  "sent (subscribeToOrderbook s c m) = sent s"
  by (simp_all add: subscribeToOrderbook_def Let_def split: option.splits)

lemma subscribe_subs:
  "orderbookSubscriptions (subscribeToOrderbook s c m) =
     AList.update m (case map_of (orderbookSubscriptions s) m of None \<Rightarrow> [c] | Some cs \<Rightarrow> set_add c cs)
       (orderbookSubscriptions s)"
  by (simp add: subscribeToOrderbook_def Let_def set_add_def split: option.splits)

lemma subscribe_pool:
  "orderbookIntervals (subscribeToOrderbook s c m) =
     (case map_of (orderbookSubscriptions s) m of
        None \<Rightarrow> AList.update m (next_timer s) (orderbookIntervals s)
      | Some cs \<Rightarrow> orderbookIntervals s)"
  "timers (subscribeToOrderbook s c m) =
     (case map_of (orderbookSubscriptions s) m of
        None \<Rightarrow> (case map_of (orderbookIntervals s) m of None \<Rightarrow> timers s
                  | Some old \<Rightarrow> AList.delete old (timers s)) @ [(next_timer s, m)]
      | Some cs \<Rightarrow> timers s)"
  "next_timer (subscribeToOrderbook s c m) =
     (case map_of (orderbookSubscriptions s) m of None \<Rightarrow> Suc (next_timer s) | Some cs \<Rightarrow> next_timer s)"
  "in_flight (subscribeToOrderbook s c m) =
     (case map_of (orderbookSubscriptions s) m of None \<Rightarrow> in_flight s @ [m] | Some cs \<Rightarrow> in_flight s)"
  by (simp_all add: subscribeToOrderbook_def Let_def start_timers split: option.splits)

lemma unsubscribe_frame [simp]:
  "clients (unsubscribeFromOrderbook s c m) = clients s"
  "polymarketWs (unsubscribeFromOrderbook s c m) = polymarketWs s"
  "sent (unsubscribeFromOrderbook s c m) = sent s"
  "in_flight (unsubscribeFromOrderbook s c m) = in_flight s"
  "next_timer (unsubscribeFromOrderbook s c m) = next_timer s"
  by (simp_all add: unsubscribeFromOrderbook_def Let_def split: option.splits)

lemma unsubscribe_subs:
  "orderbookSubscriptions (unsubscribeFromOrderbook s c m) =
     (case map_of (orderbookSubscriptions s) m of
        None \<Rightarrow> orderbookSubscriptions s
      | Some cs \<Rightarrow>
          if removeAll c cs = [] then AList.delete m (AList.update m [] (orderbookSubscriptions s))
          else AList.update m (removeAll c cs) (orderbookSubscriptions s))"
  by (simp add: unsubscribeFromOrderbook_def Let_def split: option.splits)

lemma unsubscribe_pool:
  "orderbookIntervals (unsubscribeFromOrderbook s c m) =
     (case map_of (orderbookSubscriptions s) m of
        None \<Rightarrow> orderbookIntervals s
      | Some cs \<Rightarrow> if removeAll c cs = [] then AList.delete m (orderbookIntervals s)
                   else orderbookIntervals s)"
  "timers (unsubscribeFromOrderbook s c m) =
     (case map_of (orderbookSubscriptions s) m of
        None \<Rightarrow> timers s
      | Some cs \<Rightarrow> if removeAll c cs = []
                   then (case map_of (orderbookIntervals s) m of None \<Rightarrow> timers s
                         | Some i \<Rightarrow> AList.delete i (timers s))
                   else timers s)"
  by (simp_all add: unsubscribeFromOrderbook_def Let_def stop_timers split: option.splits)

lemma registry_okI:
  assumes "\<And>m. (map_of (orderbookIntervals s) m = None) = (map_of (orderbookSubscriptions s) m = None)"
    and "\<And>m cs. map_of (orderbookSubscriptions s) m = Some cs \<Longrightarrow>
           cs \<noteq> [] \<and> distinct cs \<and> set cs \<subseteq> fst ` set (clients s)"
    and "distinct (map fst (timers s))"
    and "\<And>i m. (map_of (timers s) i = Some m) = (map_of (orderbookIntervals s) m = Some i)"
    and "\<And>i m. map_of (timers s) i = Some m \<Longrightarrow> i < next_timer s"
  shows "registry_ok s"
  unfolding registry_ok_def
proof (intro conjI)
  show "\<forall>m. (map_of (orderbookIntervals s) m = None) = (map_of (orderbookSubscriptions s) m = None)"
    by (intro allI) (rule assms(1))
  show "\<forall>m cs. map_of (orderbookSubscriptions s) m = Some cs \<longrightarrow>
          cs \<noteq> [] \<and> distinct cs \<and> set cs \<subseteq> fst ` set (clients s)"
    by (intro allI impI) (rule assms(2))
  show "distinct (map fst (timers s))" by (rule assms(3))
  show "\<forall>i m. (map_of (timers s) i = Some m) = (map_of (orderbookIntervals s) m = Some i)"
    by (intro allI) (rule assms(4))
  show "\<forall>i m. map_of (timers s) i = Some m \<longrightarrow> i < next_timer s"
    by (intro allI impI) (rule assms(5))
qed

lemma subscribe_ok:
  assumes ok: "registry_ok s" and c: "c \<in> fst ` set (clients s)"
  shows "registry_ok (subscribeToOrderbook s c m)"
proof (cases "map_of (orderbookSubscriptions s) m")
  case None
  have noint: "map_of (orderbookIntervals s) m = None"
    unfolding registry_ok_pool[OF ok] by (rule None)
  have e: "\<And>i m'. map_of (timers s) i = Some m' \<Longrightarrow> i < next_timer s"
    using ok by (rule registry_ok_bound)
  have d: "\<And>i m'. (map_of (timers s) i = Some m') = (map_of (orderbookIntervals s) m' = Some i)"
    using ok by (rule registry_ok_timer)
  have fresh': "map_of (timers s) (next_timer s) = None"
    using e[of "next_timer s"] by (cases "map_of (timers s) (next_timer s)") simp_all
  then have fresh: "next_timer s \<notin> fst ` set (timers s)"
    by (simp add: map_of_eq_None_iff)
  have S: "map_of (orderbookSubscriptions (subscribeToOrderbook s c m))
             = (map_of (orderbookSubscriptions s))(m \<mapsto> [c])"
    using None by (simp add: subscribe_subs update_conv')
  have I: "map_of (orderbookIntervals (subscribeToOrderbook s c m))
             = (map_of (orderbookIntervals s))(m \<mapsto> next_timer s)"
    using None by (simp add: subscribe_pool update_conv')
  have Tl: "timers (subscribeToOrderbook s c m) = timers s @ [(next_timer s, m)]"
    using None noint by (simp add: subscribe_pool)
  have T: "map_of (timers (subscribeToOrderbook s c m)) = (map_of (timers s))(next_timer s \<mapsto> m)"
    unfolding Tl by (rule map_of_snoc_fresh[OF fresh])
  have N: "next_timer (subscribeToOrderbook s c m) = Suc (next_timer s)"
    using None by (simp add: subscribe_pool)
  show ?thesis
  proof (rule registry_okI; (unfold S I T N subscribe_frame)?)
    fix ma
    show "(((map_of (orderbookIntervals s))(m \<mapsto> next_timer s)) ma = None) =
               (((map_of (orderbookSubscriptions s))(m \<mapsto> [c])) ma = None)"
      using registry_ok_pool[OF ok, of ma] by simp
  next
    fix ma cs
    assume a: "((map_of (orderbookSubscriptions s))(m \<mapsto> [c])) ma = Some cs"
    show "cs \<noteq> [] \<and> distinct cs \<and> set cs \<subseteq> fst ` set (clients s)"
    proof (cases "ma = m")
      case True
      with a have "cs = [c]" by simp
      then show ?thesis using c by simp
    next
      case False
      with a have "map_of (orderbookSubscriptions s) ma = Some cs" by simp
      then show ?thesis by (rule registry_ok_subscribers[OF ok])
    qed
  next
    show "distinct (map fst (timers (subscribeToOrderbook s c m)))"
      using registry_ok_distinct[OF ok] fresh by (simp add: Tl)
  next
    fix i ma
    show "(((map_of (timers s))(next_timer s \<mapsto> m)) i = Some ma) =
                  (((map_of (orderbookIntervals s))(m \<mapsto> next_timer s)) ma = Some i)"
    proof (cases "i = next_timer s")
      case True
      have "map_of (orderbookIntervals s) ma \<noteq> Some (next_timer s)"
        using d[of "next_timer s" ma] fresh' by simp
      with True show ?thesis by auto
    next
      case False
      have "map_of (timers s) i \<noteq> Some m"
        using d[of i m] noint by simp
      with False show ?thesis using d[of i ma] by auto
    qed
  next
    fix i ma
    assume "((map_of (timers s))(next_timer s \<mapsto> m)) i = Some ma"
    then show "i < Suc (next_timer s)"
      using e[of i ma] by (cases "i = next_timer s") (simp_all add: less_Suc_eq)
  qed
next
  case (Some cs)
  have S: "map_of (orderbookSubscriptions (subscribeToOrderbook s c m))
             = (map_of (orderbookSubscriptions s))(m \<mapsto> set_add c cs)"
    using Some by (simp add: subscribe_subs update_conv')
  have rest: "orderbookIntervals (subscribeToOrderbook s c m) = orderbookIntervals s"
     "timers (subscribeToOrderbook s c m) = timers s"
     "next_timer (subscribeToOrderbook s c m) = next_timer s"
    using Some by (simp_all add: subscribe_pool)
  have cs: "cs \<noteq> []" "distinct cs" "set cs \<subseteq> fst ` set (clients s)"
    using registry_ok_subscribers[OF ok Some] by simp_all
  have sa: "set_add c cs \<noteq> [] \<and> distinct (set_add c cs) \<and> set (set_add c cs) \<subseteq> fst ` set (clients s)"
    using cs c by (auto simp: set_add_def)
  show ?thesis
  proof (rule registry_okI; (unfold S rest subscribe_frame)?)
    fix ma
    show "(map_of (orderbookIntervals s) ma = None) =
               (((map_of (orderbookSubscriptions s))(m \<mapsto> set_add c cs)) ma = None)"
      using registry_ok_pool[OF ok, of ma] Some by (cases "ma = m") simp_all
  next
    fix ma cs'
    assume a: "((map_of (orderbookSubscriptions s))(m \<mapsto> set_add c cs)) ma = Some cs'"
    show "cs' \<noteq> [] \<and> distinct cs' \<and> set cs' \<subseteq> fst ` set (clients s)"
    proof (cases "ma = m")
      case True
      with a have "cs' = set_add c cs" by simp
      then show ?thesis using sa by simp
    next
      case False
      with a have "map_of (orderbookSubscriptions s) ma = Some cs'" by simp
      then show ?thesis by (rule registry_ok_subscribers[OF ok])
    qed
  next
    show "distinct (map fst (timers s))" using ok by (rule registry_ok_distinct)
  next
    fix i ma
    show "(map_of (timers s) i = Some ma) = (map_of (orderbookIntervals s) ma = Some i)"
      using ok by (rule registry_ok_timer)
  next
    fix i ma
    assume "map_of (timers s) i = Some ma"
    then show "i < next_timer s" using ok registry_ok_bound by blast
  qed
qed

lemma unsubscribe_ok:
  assumes ok: "registry_ok s"
  shows "registry_ok (unsubscribeFromOrderbook s c m)"
proof (cases "map_of (orderbookSubscriptions s) m")
  case None
  have "orderbookSubscriptions (unsubscribeFromOrderbook s c m) = orderbookSubscriptions s"
    "orderbookIntervals (unsubscribeFromOrderbook s c m) = orderbookIntervals s"
    "timers (unsubscribeFromOrderbook s c m) = timers s"
    using None by (simp_all add: unsubscribe_subs unsubscribe_pool)
  then show ?thesis
    using ok by (intro registry_ok_cong[OF ok]) simp_all
next
  case (Some cs)
  have cs: "cs \<noteq> [] \<and> distinct cs \<and> set cs \<subseteq> fst ` set (clients s)"
    using ok Some by (rule registry_ok_subscribers)
  have d: "\<And>i m'. (map_of (timers s) i = Some m') = (map_of (orderbookIntervals s) m' = Some i)"
    using ok by (rule registry_ok_timer)
  have e: "\<And>i m'. map_of (timers s) i = Some m' \<Longrightarrow> i < next_timer s"
    using ok by (rule registry_ok_bound)
  show ?thesis
  proof (cases "removeAll c cs = []")
    case True
    have "map_of (orderbookIntervals s) m \<noteq> None"
      unfolding registry_ok_pool[OF ok] using Some by simp
    then obtain i where i: "map_of (orderbookIntervals s) m = Some i"
      by blast
    have S: "map_of (orderbookSubscriptions (unsubscribeFromOrderbook s c m))
               = (map_of (orderbookSubscriptions s))(m := None)"
      using Some True by (simp add: unsubscribe_subs update_conv' delete_conv')
    have I: "map_of (orderbookIntervals (unsubscribeFromOrderbook s c m))
               = (map_of (orderbookIntervals s))(m := None)"
      using Some True by (simp add: unsubscribe_pool delete_conv')
    have Tl: "timers (unsubscribeFromOrderbook s c m) = AList.delete i (timers s)"
      using Some True i by (simp add: unsubscribe_pool)
    have T: "map_of (timers (unsubscribeFromOrderbook s c m)) = (map_of (timers s))(i := None)"
      by (simp add: Tl delete_conv')
    show ?thesis
    proof (rule registry_okI; (unfold S I T unsubscribe_frame)?)
      fix ma
      show "(((map_of (orderbookIntervals s))(m := None)) ma = None) =
                 (((map_of (orderbookSubscriptions s))(m := None)) ma = None)"
        by (cases "ma = m") (simp_all add: registry_ok_pool[OF ok])
    next
      fix ma cs'
      assume a: "((map_of (orderbookSubscriptions s))(m := None)) ma = Some cs'"
      then have "ma \<noteq> m" by (cases "ma = m") simp_all
      with a have "map_of (orderbookSubscriptions s) ma = Some cs'" by simp
      then show "cs' \<noteq> [] \<and> distinct cs' \<and> set cs' \<subseteq> fst ` set (clients s)"
        by (rule registry_ok_subscribers[OF ok])
    next
      show "distinct (map fst (timers (unsubscribeFromOrderbook s c m)))"
        unfolding Tl using registry_ok_distinct[OF ok] by (rule distinct_delete)
    next
      fix j ma
      show "(((map_of (timers s))(i := None)) j = Some ma) =
                  (((map_of (orderbookIntervals s))(m := None)) ma = Some j)"
      proof (cases "ma = m")
        case True
        have "map_of (timers s) j = Some m \<Longrightarrow> j = i"
          using d[of j m] i by simp
        with True show ?thesis by auto
      next
        case False
        have "map_of (timers s) i \<noteq> Some ma"
          using d[of i ma] d[of i m] i False by auto
        with False show ?thesis using d[of j ma] by auto
      qed
    next
      fix j ma
      assume a: "((map_of (timers s))(i := None)) j = Some ma"
      then have "j \<noteq> i" by (cases "j = i") simp_all
      with a have "map_of (timers s) j = Some ma" by simp
      then show "j < next_timer s" by (rule e)
    qed
  next
    case False
    have S: "map_of (orderbookSubscriptions (unsubscribeFromOrderbook s c m))
               = (map_of (orderbookSubscriptions s))(m \<mapsto> removeAll c cs)"
      using Some False by (simp add: unsubscribe_subs update_conv')
    have rest: "orderbookIntervals (unsubscribeFromOrderbook s c m) = orderbookIntervals s"
       "timers (unsubscribeFromOrderbook s c m) = timers s"
      using Some False by (simp_all add: unsubscribe_pool)
    have ra: "removeAll c cs \<noteq> [] \<and> distinct (removeAll c cs)
                \<and> set (removeAll c cs) \<subseteq> fst ` set (clients s)"
      using cs False by (auto simp: distinct_removeAll)
    show ?thesis
    proof (rule registry_okI; (unfold S rest unsubscribe_frame)?)
      fix ma
      show "(map_of (orderbookIntervals s) ma = None) =
                 (((map_of (orderbookSubscriptions s))(m \<mapsto> removeAll c cs)) ma = None)"
        using Some by (cases "ma = m") (simp_all add: registry_ok_pool[OF ok])
    next
      fix ma cs'
      assume a: "((map_of (orderbookSubscriptions s))(m \<mapsto> removeAll c cs)) ma = Some cs'"
      show "cs' \<noteq> [] \<and> distinct cs' \<and> set cs' \<subseteq> fst ` set (clients s)"
      proof (cases "ma = m")
        case True
        with a have "cs' = removeAll c cs" by simp
        then show ?thesis using ra by simp
      next
        case False
        with a have "map_of (orderbookSubscriptions s) ma = Some cs'" by simp
        then show ?thesis by (rule registry_ok_subscribers[OF ok])
      qed
    next
      show "distinct (map fst (timers s))" using ok by (rule registry_ok_distinct)
    next
      fix i ma
      show "(map_of (timers s) i = Some ma) = (map_of (orderbookIntervals s) ma = Some i)"
        by (rule d)
    next
      fix i ma
      assume "map_of (timers s) i = Some ma"
      then show "i < next_timer s" by (rule e)
    qed
  qed
qed

lemma registry_ok_fields [simp]:
  "registry_ok (s\<lparr>next_obj := n\<rparr>) = registry_ok s"
  "registry_ok (s\<lparr>in_flight := fl\<rparr>) = registry_ok s"
  "registry_ok (s\<lparr>sent := out\<rparr>) = registry_ok s"
  "registry_ok (s\<lparr>upstream_sent := up\<rparr>) = registry_ok s"
  "registry_ok (s\<lparr>polymarketWs := w\<rparr>) = registry_ok s"
  "registry_ok (s\<lparr>reconnects := r\<rparr>) = registry_ok s"
  "registry_ok (s\<lparr>console := lg\<rparr>) = registry_ok s"
  by (simp_all add: registry_ok_def)

lemma registry_ok_console_log [simp]: "registry_ok (console_log e s) = registry_ok s"
  by (simp add: console_log_def)

lemma registry_ok_sendToClient [simp]: "registry_ok (sendToClient s c d) = registry_ok s"
  by (simp add: sendToClient_def split: option.splits)

lemma registry_ok_clients:
  assumes ok: "registry_ok s" and sub: "fst ` set (clients s) \<subseteq> fst ` set cl"
  shows "registry_ok (s\<lparr>clients := cl\<rparr>)"
proof (rule registry_okI; simp del: map_of_eq_Some_iff)
  fix m
  show "(map_of (orderbookIntervals s) m = None) = (map_of (orderbookSubscriptions s) m = None)"
    using ok by (rule registry_ok_pool)
next
  fix m cs
  assume "map_of (orderbookSubscriptions s) m = Some cs"
  then have "cs \<noteq> [] \<and> distinct cs \<and> set cs \<subseteq> fst ` set (clients s)"
    by (rule registry_ok_subscribers[OF ok])
  then show "cs \<noteq> [] \<and> distinct cs \<and> set cs \<subseteq> fst ` set cl"
    using sub by blast
next
  show "distinct (map fst (timers s))" using ok by (rule registry_ok_distinct)
next
  fix i m
  show "(map_of (timers s) i = Some m) = (map_of (orderbookIntervals s) m = Some i)"
    using ok by (rule registry_ok_timer)
next
  fix i m
  assume "map_of (timers s) i = Some m"
  then show "i < next_timer s" by (rule registry_ok_bound[OF ok])
qed

lemma update_present_keys:
  "map_of al k = Some v \<Longrightarrow> map fst (AList.update k v' al) = map fst al"
  by (induction al) auto

lemma registry_ok_client_update:
  "registry_ok s \<Longrightarrow> registry_ok (s\<lparr>clients := AList.update c v (clients s)\<rparr>)"
  by (rule registry_ok_clients) (auto simp: dom_update)

lemma without_idem: "without c (without c v) = without c v"
  by (simp add: without_def split: option.splits)

lemma without_absent: "without c v = Some cs \<Longrightarrow> c \<notin> set cs"
  by (auto simp: without_def split: option.splits if_splits)

lemma cleanup_visit_lookup:
  "map_of (orderbookSubscriptions (cleanup_visit c m s)) k =
     (if k = m then without c (map_of (orderbookSubscriptions s) m)
      else map_of (orderbookSubscriptions s) k)"
  by (simp add: cleanup_visit_def without_def unsubscribe_subs update_conv' delete_conv'
           split: option.splits)

lemma cleanup_fold_lookup:
  "map_of (orderbookSubscriptions (fold (cleanup_visit c) ks s)) k =
     (if k \<in> set ks then without c (map_of (orderbookSubscriptions s) k)
      else map_of (orderbookSubscriptions s) k)"
proof (induction ks arbitrary: s)
  case Nil
  show ?case by simp
next
  case (Cons x xs)
  show ?case
    by (simp add: Cons.IH cleanup_visit_lookup without_idem)
qed

lemma cleanup_lookup:
  "map_of (orderbookSubscriptions (cleanupClientSubscriptions s c)) k =
     without c (map_of (orderbookSubscriptions s) k)"
proof (cases "map_of (orderbookSubscriptions s) k")
  case None
  then show ?thesis
    by (simp add: cleanupClientSubscriptions_def cleanup_fold_lookup without_def)
next
  case (Some cs)
  then have "k \<in> set (map fst (orderbookSubscriptions s))"
    by (metis map_of_eq_None_iff option.distinct(1) set_map)
  then show ?thesis
    by (simp add: cleanupClientSubscriptions_def cleanup_fold_lookup)
qed

lemma cleanup_visit_ok: "registry_ok s \<Longrightarrow> registry_ok (cleanup_visit c m s)"
  by (simp add: cleanup_visit_def unsubscribe_ok split: option.splits)

lemma cleanup_visit_clients [simp]: "clients (cleanup_visit c m s) = clients s"
  by (simp add: cleanup_visit_def split: option.splits)

lemma cleanup_fold_ok: "registry_ok s \<Longrightarrow> registry_ok (fold (cleanup_visit c) ks s)"
  by (induction ks arbitrary: s) (simp_all add: cleanup_visit_ok)

lemma cleanup_fold_clients [simp]: "clients (fold (cleanup_visit c) ks s) = clients s"
  by (induction ks arbitrary: s) simp_all

lemma cleanup_ok: "registry_ok s \<Longrightarrow> registry_ok (cleanupClientSubscriptions s c)"
  by (simp add: cleanupClientSubscriptions_def cleanup_fold_ok)

lemma cleanup_clients [simp]: "clients (cleanupClientSubscriptions s c) = clients s"
  by (simp add: cleanupClientSubscriptions_def)

lemma delete_key_set: "fst ` set (AList.delete k al) = fst ` set al - {k}"
proof -
  have "set (map fst (AList.delete k al)) = set (map fst al) - {k}"
    by (simp only: delete_keys set_removeAll)
  then show ?thesis by simp
qed

lemma on_close_ok:
  assumes ok: "registry_ok s"
  shows "registry_ok (on_close s c)"
proof -
  let ?s1 = "cleanupClientSubscriptions (console_log ClientDisconnected s) c"
  have ok1: "registry_ok ?s1" using ok by (simp add: cleanup_ok)
  have cl: "clients ?s1 = clients s" by simp
  show ?thesis
    unfolding on_close_def Let_def
  proof (rule registry_okI; simp del: map_of_eq_Some_iff)
    fix m
    show "(map_of (orderbookIntervals ?s1) m = None) = (map_of (orderbookSubscriptions ?s1) m = None)"
      using ok1 by (rule registry_ok_pool)
  next
    fix m cs
    assume a: "map_of (orderbookSubscriptions ?s1) m = Some cs"
    then have 1: "cs \<noteq> [] \<and> distinct cs \<and> set cs \<subseteq> fst ` set (clients ?s1)"
      by (rule registry_ok_subscribers[OF ok1])
    have "c \<notin> set cs"
      using a unfolding cleanup_lookup by (rule without_absent)
    with 1 show "cs \<noteq> [] \<and> distinct cs \<and> set cs \<subseteq> fst ` set (AList.delete c (clients s))"
      unfolding delete_key_set cl by blast
  next
    show "distinct (map fst (timers ?s1))" using ok1 by (rule registry_ok_distinct)
  next
    fix i m
    show "(map_of (timers ?s1) i = Some m) = (map_of (orderbookIntervals ?s1) m = Some i)"
      using ok1 by (rule registry_ok_timer)
  next
    fix i m
    assume "map_of (timers ?s1) i = Some m"
    then show "i < next_timer ?s1" by (rule registry_ok_bound[OF ok1])
  qed
qed

lemma handleSubscribe_ok:
  assumes ok: "registry_ok s"
  shows "registry_ok (final_state (handleSubscribe s c data))"
proof (cases "map_of (clients s) c")
  case None
  then show ?thesis using ok by (simp add: handleSubscribe_def)
next
  case (Some client)
  have ok1: "registry_ok (s\<lparr>clients := AList.update c v (clients s)\<rparr>)" for v
    using ok by (rule registry_ok_client_update)
  have mem: "c \<in> fst ` set (AList.update c v (clients s))" for v
    by (simp add: dom_update)
  have sub: "registry_ok (subscribeToOrderbook
               (s\<lparr>clients := AList.update c v (clients s), next_obj := n\<rparr>) c k)" for v n k
    by (rule subscribe_ok) (simp_all add: ok1 mem)
  show ?thesis
    using Some ok ok1 sub
    by (simp add: handleSubscribe_def Let_def split: option.splits)
qed

lemma handleUnsubscribe_ok:
  assumes ok: "registry_ok s"
  shows "registry_ok (final_state (handleUnsubscribe s c data))"
proof (cases "map_of (clients s) c")
  case None
  then show ?thesis using ok by (simp add: handleUnsubscribe_def)
next
  case (Some client)
  have ok1: "registry_ok (s\<lparr>clients := AList.update c v (clients s)\<rparr>)" for v
    using ok by (rule registry_ok_client_update)
  have unsub: "registry_ok (unsubscribeFromOrderbook
               (s\<lparr>clients := AList.update c v (clients s), next_obj := n\<rparr>) c k)" for v n k
    by (rule unsubscribe_ok) (simp add: ok1)
  show ?thesis
    using Some ok ok1 unsub
    by (simp add: handleUnsubscribe_def Let_def split: option.splits)
qed

lemma handleClientMessage_ok:
  "registry_ok s \<Longrightarrow> registry_ok (final_state (handleClientMessage s c data))"
  by (simp add: handleClientMessage_def handleSubscribe_ok handleUnsubscribe_ok
           split: option.splits)

lemma on_message_ok:
  assumes "registry_ok s"
  shows "registry_ok (final_state (on_message s c fr))"
proof (cases fr)
  case Unparseable
  then show ?thesis using assms by (simp add: on_message_def)
next
  case (Parsed data)
  show ?thesis
    using handleClientMessage_ok[OF assms, of c data] Parsed
    by (cases "handleClientMessage s c data") (simp_all add: on_message_def)
qed

lemma on_connection_ok:
  assumes "registry_ok s"
  shows "registry_ok (on_connection s c now)"
proof -
  have "registry_ok ((console_log ClientConnected s)\<lparr>clients := AList.update c v (clients s)\<rparr>)" for v
    by (rule registry_ok_clients) (auto simp: assms dom_update)
  then show ?thesis
    by (simp add: on_connection_def Let_def)
qed

lemma fold_send_frame [simp]:
  "clients (fold (\<lambda>c s'. sendToClient s' c d) cs s) = clients s"
  "orderbookSubscriptions (fold (\<lambda>c s'. sendToClient s' c d) cs s) = orderbookSubscriptions s"
  "orderbookIntervals (fold (\<lambda>c s'. sendToClient s' c d) cs s) = orderbookIntervals s"
  "timers (fold (\<lambda>c s'. sendToClient s' c d) cs s) = timers s"
  "next_timer (fold (\<lambda>c s'. sendToClient s' c d) cs s) = next_timer s"
  "in_flight (fold (\<lambda>c s'. sendToClient s' c d) cs s) = in_flight s"
  "console (fold (\<lambda>c s'. sendToClient s' c d) cs s) = console s"
  by (induction cs arbitrary: s) simp_all

lemma fetched_market:
  assumes "get_prop_opt market ''tokens'' = Some (JArr tokens)"
  shows "truthy market \<and> truthy (get_prop_opt market ''tokens'')"
proof (cases market)
  case None
  with assms show ?thesis by simp
next
  case (Some v)
  with assms show ?thesis by (cases v) simp_all
qed

lemma resume_failure:
  assumes "fetched mr br = None"
  shows "\<exists>e. pollOrderbook_resume s m mr br now = console_log e s"
proof (cases mr)
  case (Rejected e)
  then show ?thesis by (auto simp: pollOrderbook_resume_def)
next
  case (Resolved market)
  show ?thesis
  proof (cases "get_prop_opt market ''tokens''")
    case None
    then show ?thesis using Resolved by (auto simp: pollOrderbook_resume_def)
  next
    case (Some v)
    show ?thesis
    proof (cases "\<exists>tokens. v = JArr tokens")
      case False
      then show ?thesis
        using Resolved Some by (cases v) (auto simp: pollOrderbook_resume_def)
    next
      case True
      then obtain tokens where v: "v = JArr tokens" by blast
      have tr: "truthy market \<and> truthy (get_prop_opt market ''tokens'')"
        using Some v by (intro fetched_market) simp
      show ?thesis
      proof (cases "JNull \<in> set tokens")
        case True
        then show ?thesis
          using Resolved Some v tr by (auto simp: pollOrderbook_resume_def)
      next
        case False
        with assms Resolved Some v obtain e where "br = Rejected e"
          by (cases br) (simp_all add: fetched_def)
        then show ?thesis
          using Resolved Some v tr False by (auto simp: pollOrderbook_resume_def)
      qed
    qed
  qed
qed

lemma resume_success:
  assumes "fetched mr br = Some (tokens, orderbooks)"
  shows "pollOrderbook_resume s m mr br now =
           fold (\<lambda>c s'. sendToClient s' c (orderbook_message m (orderbookData tokens orderbooks) now))
                (subscribers s m) s"
proof -
  obtain market where mr: "mr = Resolved market"
    using assms by (cases mr) (simp_all add: fetched_def)
  obtain v where tk0: "get_prop_opt market ''tokens'' = Some v"
    using assms mr by (cases "get_prop_opt market ''tokens''") (simp_all add: fetched_def)
  have tk: "get_prop_opt market ''tokens'' = Some (JArr tokens) \<and> JNull \<notin> set tokens
              \<and> br = Resolved orderbooks"
    using assms mr tk0 by (cases v; cases br) (simp_all add: fetched_def split: if_splits)
  show ?thesis
    using fetched_market[of market tokens] tk
    by (simp add: pollOrderbook_resume_def mr subscribers_def split: option.splits)
qed

lemma resume_frame [simp]:
  "clients (pollOrderbook_resume s m mr br now) = clients s"
  "orderbookSubscriptions (pollOrderbook_resume s m mr br now) = orderbookSubscriptions s"
  "orderbookIntervals (pollOrderbook_resume s m mr br now) = orderbookIntervals s"
  "timers (pollOrderbook_resume s m mr br now) = timers s"
  "next_timer (pollOrderbook_resume s m mr br now) = next_timer s"
  "in_flight (pollOrderbook_resume s m mr br now) = in_flight s"
proof -
  have "(\<exists>e. pollOrderbook_resume s m mr br now = console_log e s) \<or>
        (\<exists>d cs. pollOrderbook_resume s m mr br now = fold (\<lambda>c s'. sendToClient s' c d) cs s)"
  proof (cases "fetched mr br")
    case None
    then show ?thesis using resume_failure by blast
  next
    case (Some p)
    then show ?thesis using resume_success[of mr br "fst p" "snd p"] by auto
  qed
  then show
    "clients (pollOrderbook_resume s m mr br now) = clients s"
    "orderbookSubscriptions (pollOrderbook_resume s m mr br now) = orderbookSubscriptions s"
    "orderbookIntervals (pollOrderbook_resume s m mr br now) = orderbookIntervals s"
    "timers (pollOrderbook_resume s m mr br now) = timers s"
    "next_timer (pollOrderbook_resume s m mr br now) = next_timer s"
    "in_flight (pollOrderbook_resume s m mr br now) = in_flight s"
    by auto
qed

lemma resume_ok [simp]: "registry_ok (pollOrderbook_resume s m mr br now) = registry_ok s"
  by (simp add: registry_ok_def)

lemma broadcastPolymarketData_frame [simp]:
  "clients (fold (\<lambda>entry s'. if P entry then sendToClient s' (fst entry) d else s') es s) = clients s"
  "orderbookSubscriptions (fold (\<lambda>entry s'. if P entry then sendToClient s' (fst entry) d else s') es s)
     = orderbookSubscriptions s"
  "orderbookIntervals (fold (\<lambda>entry s'. if P entry then sendToClient s' (fst entry) d else s') es s)
     = orderbookIntervals s"
  "timers (fold (\<lambda>entry s'. if P entry then sendToClient s' (fst entry) d else s') es s) = timers s"
  "next_timer (fold (\<lambda>entry s'. if P entry then sendToClient s' (fst entry) d else s') es s) = next_timer s"
  "in_flight (fold (\<lambda>entry s'. if P entry then sendToClient s' (fst entry) d else s') es s) = in_flight s"
  by (induction es arbitrary: s) simp_all

lemma upstream_ok [simp]: "registry_ok (on_upstream_message s fr) = registry_ok s"
  by (cases fr) (simp_all add: on_upstream_message_def broadcastPolymarketData_def registry_ok_def)

lemma step_ok: "registry_ok s \<Longrightarrow> registry_ok (step s ev)"
proof (cases ev)
  case (ClientNotOpen c)
  assume "registry_ok s"
  then show ?thesis
    using ClientNotOpen by (simp add: registry_ok_client_update split: option.splits)
next
  case (IntervalTick i)
  assume "registry_ok s"
  then show ?thesis
    using IntervalTick by (simp add: pollOrderbook_call_def split: option.splits)
qed (simp_all add: on_connection_ok on_message_ok on_close_ok connectToPolymarket_def
       split: option.splits)

lemma run_ok: "registry_ok s \<Longrightarrow> registry_ok (run s es)"
  unfolding run_def by (induction es arbitrary: s) (simp_all add: step_ok)

lemma reachable_ok: "registry_ok (run init es)"
  by (rule run_ok) (rule registry_ok_init)

lemma count_list_remove1:
  "count_list (remove1 x xs) x = count_list xs x - 1"
  by (induction xs) auto


lemma run_Nil [simp]: "run s [] = s"
  by (simp add: run_def)

lemma run_Cons [simp]: "run s (e # es) = run (step s e) es"
  by (simp add: run_def)

lemma run_snoc: "run s (es @ [e]) = step (run s es) e"
  by (simp add: run_def)

lemma poll_timers_count:
  assumes ok: "registry_ok s"
  shows "length (poll_timers s m) = (if subscribers s m = [] then 0 else 1)"
proof (cases "map_of (orderbookSubscriptions s) m")
  case None
  then have "map_of (orderbookIntervals s) m = None"
    by (simp only: registry_ok_pool[OF ok])
  then have "\<And>i. map_of (timers s) i \<noteq> Some m"
    by (simp only: registry_ok_timer[OF ok]) simp
  then have "\<And>t. t \<in> set (timers s) \<Longrightarrow> snd t \<noteq> m"
    using registry_ok_distinct[OF ok] by (metis map_of_is_SomeI prod.collapse)
  then have "poll_timers s m = []"
    by (simp add: poll_timers_def filter_empty_conv)
  then show ?thesis using None by (simp add: subscribers_def)
next
  case (Some cs)
  then have ne: "subscribers s m \<noteq> []"
    using registry_ok_subscribers[OF ok Some] by (simp add: subscribers_def)
  have "map_of (orderbookIntervals s) m \<noteq> None"
    using Some by (simp only: registry_ok_pool[OF ok]) simp
  then obtain i where i: "map_of (orderbookIntervals s) m = Some i" by blast
  then have ti: "map_of (timers s) i = Some m"
    by (simp only: registry_ok_timer[OF ok])
  have dist: "distinct (timers s)"
    using registry_ok_distinct[OF ok] by (simp add: distinct_map)
  have mem: "(i, m) \<in> set (timers s)" using ti by (rule map_of_SomeD)
  have only: "t = (i, m)" if "t \<in> set (timers s)" "snd t = m" for t
  proof -
    have "map_of (timers s) (fst t) = Some m"
      using that registry_ok_distinct[OF ok] by (metis map_of_is_SomeI prod.collapse)
    then have "map_of (orderbookIntervals s) m = Some (fst t)"
      by (simp only: registry_ok_timer[OF ok])
    with i that show ?thesis by (cases t) simp
  qed
  have sub: "t = (i, m)" if "t \<in> set (poll_timers s m)" for t
  proof -
    from that have "t \<in> set (timers s)" "snd t = m"
      by (simp_all add: poll_timers_def)
    then show ?thesis by (rule only)
  qed
  have mem': "(i, m) \<in> set (poll_timers s m)"
    using mem by (simp add: poll_timers_def)
  have "set (poll_timers s m) = {(i, m)}"
    using sub mem' by blast
  moreover have "distinct (poll_timers s m)"
    using dist by (simp add: poll_timers_def)
  ultimately have "length (poll_timers s m) = card {(i, m)}"
    by (metis distinct_card)
  then show ?thesis using ne by simp
qed

lemma has_poll_task_iff:
  assumes ok: "registry_ok s"
  shows "has_poll_task s m = (subscribers s m \<noteq> [])"
proof (cases "map_of (orderbookSubscriptions s) m")
  case None
  then have "map_of (orderbookIntervals s) m = None"
    by (simp only: registry_ok_pool[OF ok])
  then show ?thesis using None by (simp add: has_poll_task_def subscribers_def)
next
  case (Some cs)
  have "map_of (orderbookIntervals s) m \<noteq> None"
    using Some by (simp only: registry_ok_pool[OF ok]) simp
  then show ?thesis
    using registry_ok_subscribers[OF ok Some] Some by (simp add: has_poll_task_def subscribers_def)
qed


lemma subscribers_subscribe:
  "subscribers (subscribeToOrderbook s c m) k =
     (if k = m then set_add c (subscribers s m) else subscribers s k)"
  by (simp add: subscribers_def subscribe_subs update_conv' set_add_def split: option.splits)


lemmas model_defs =
  handleClientMessage_def handleSubscribe_def handleUnsubscribe_def on_message_def
  on_connection_def on_close_def sendToClient_def console_log_def subscribeToOrderbook_def
  unsubscribeFromOrderbook_def startOrderbookPolling_def stopOrderbookPolling_def
  pollOrderbook_call_def cleanupClientSubscriptions_def cleanup_visit_def
  pollOrderbook_resume_def orderbook_message_def orderbookData_def subscriptionKey_def
  set_add_def init_def quote_def json_escape_def
  broadcastPolymarketData_def isClientSubscribed_def on_upstream_message_def
  connectToPolymarket_def request_def


lemma subscribed_state:
  "subscribed = \<lparr> clients = [(''c1'', \<lparr>ws_open = True,
           subscriptions = [''orderbook:{'' @ [CHR 0x22] @ ''market_id'' @ [CHR 0x22] @ '':''
                             @ [CHR 0x22] @ ''M1'' @ [CHR 0x22] @ ''}'']\<rparr>)],
       polymarketWs = None, orderbookSubscriptions = [(M1, [''c1''])],
       orderbookIntervals = [(M1, 0)], timers = [(0, M1)],
       next_timer = 1, next_obj = 1, in_flight = [M1],
       sent = [(''c1'', JObj [(''type'', JStr ''connected''), (''clientId'', JStr ''c1''),
                              (''timestamp'', JStr ''t0'')]),
               (''c1'', JObj [(''type'', JStr ''subscribed''), (''channel'', JStr ''orderbook''),
                              (''params'', JObj [(''market_id'', JStr ''M1'')])])],
       upstream_sent = [], reconnects = 0,
       console = [ClientConnected, PollingStarted M1, OrderbookSubscribed ''c1'' M1] \<rparr>"
  by (simp add: subscribed_def subscribe_M1_def M1_def model_defs)



section \<open>The claims\<close>

text \<open>
  C10. A message that arrives under a connection id the registry does not hold (never
  accepted, or closed) has no effect at all: \<^verbatim>\<open>handleClientMessage\<close>, and with it the
  subscribe and unsubscribe handlers and the \<^verbatim>\<open>message\<close> listener, return the state they were
  given, so nothing is registered, no poll task starts or stops, nothing is logged and no
  reply is written.
\<close>

theorem unknown_connection_is_noop:
  "map_of (clients s) clientId = None \<Longrightarrow>
     handleClientMessage s clientId data = Normal s \<and>
     handleSubscribe s clientId data = Normal s \<and>
     handleUnsubscribe s clientId data = Normal s \<and>
     on_message s clientId (Parsed data) = Normal s \<and>
     step s (ClientMessage clientId (Parsed data)) = s"
  by (simp add: handleClientMessage_def handleSubscribe_def handleUnsubscribe_def on_message_def)

theorem unknown_connection_is_noop_witness:
  "map_of (clients subscribed) ''c2'' = None \<and>
   step subscribed (ClientMessage ''c2'' (Parsed subscribe_M1)) = subscribed \<and>
   handleClientMessage subscribed ''c2'' unsubscribe_M1 = Normal subscribed"
proof -
  have h: "map_of (clients subscribed) ''c2'' = None"
    by (simp add: subscribed_state)
  show ?thesis
    using h unknown_connection_is_noop[OF h, of subscribe_M1]
      unknown_connection_is_noop[OF h, of unsubscribe_M1]
    by simp
qed

text \<open>
  C4. The frame a poll cycle writes to a subscriber is
  \<^verbatim>\<open>{"type":"orderbook","market_id":...,"orderbook":[...],"timestamp":...}\<close>: client \<^verbatim>\<open>c1\<close>
  subscribes to market \<^verbatim>\<open>M1\<close> and the first poll fetches one token with its order book. The
  type is \<^verbatim>\<open>orderbook\<close>, not \<^verbatim>\<open>orderbook_update\<close>, and the frame has neither a \<^verbatim>\<open>channel\<close> nor a
  \<^verbatim>\<open>data\<close> field.
\<close>

theorem poll_update_frame:
  "sent polled = sent subscribed @ [(''c1'', update_M1)] \<and>
   get_prop update_M1 ''type'' = Some (JStr ''orderbook'') \<and>
   get_prop update_M1 ''channel'' = None \<and>
   get_prop update_M1 ''data'' = None"
  by (simp add: polled_def subscribed_state M1_def market_M1_def update_M1_def
        pollOrderbook_resume_def sendToClient_def orderbook_message_def orderbookData_def)

text \<open>
  C1, as stated, fails: client \<^verbatim>\<open>c1\<close> subscribes to market \<^verbatim>\<open>M1\<close>, which starts the first
  poll; the interval timer then comes due before that poll has returned, and two poll
  cycles of \<^verbatim>\<open>M1\<close> are in flight.
\<close>

theorem single_flight_counterexample:
  "has_poll_task ticked M1 \<and> cycles_in_flight ticked M1 = 2"
  by (simp add: ticked_def subscribed_state has_poll_task_def cycles_in_flight_def
        pollOrderbook_call_def)

text \<open>
  C1, amended. A poll cycle of a market starts when its poll task is created and at every
  tick of the task's interval timer, whether or not an earlier cycle has completed: the
  number of cycles in flight for the market grows by one with \<^verbatim>\<open>startOrderbookPolling\<close> and
  with each tick of a live timer of that market, and falls by one when a cycle in flight
  completes, with success or with failure.
\<close>

theorem poll_cycles_overlap:
  "cycles_in_flight (startOrderbookPolling s m) m = Suc (cycles_in_flight s m) \<and>
   (map_of (timers s) i = Some m \<longrightarrow>
      cycles_in_flight (step s (IntervalTick i)) m = Suc (cycles_in_flight s m)) \<and>
   (m \<in> set (in_flight s) \<longrightarrow>
      cycles_in_flight (step s (PollSettles m market_r books_r now)) m = cycles_in_flight s m - 1)"
  by (simp add: cycles_in_flight_def pollOrderbook_call_def count_list_remove1)

theorem poll_cycles_overlap_witness:
  "map_of (timers subscribed) 0 = Some M1 \<and> M1 \<in> set (in_flight subscribed) \<and>
   cycles_in_flight subscribed M1 = 1 \<and>
   cycles_in_flight (step subscribed (IntervalTick 0)) M1 = 2 \<and>
   cycles_in_flight (step subscribed (PollSettles M1 (Rejected ''Failed to fetch market details'')
                                        (Resolved []) ''t1'')) M1 = 0"
proof -
  have h: "map_of (timers subscribed) 0 = Some M1" "M1 \<in> set (in_flight subscribed)"
    "cycles_in_flight subscribed M1 = 1"
    by (simp_all add: subscribed_state cycles_in_flight_def)
  show ?thesis
    using h poll_cycles_overlap[of subscribed M1 0 "Rejected ''Failed to fetch market details''"
        "Resolved []" "''t1''"]
    by simp
qed








lemma subscribers_console_log [simp]: "subscribers (console_log e s) m = subscribers s m"
  by (simp add: subscribers_def)





lemma subscriptionKey_string [simp]:
  "subscriptionKey (Some (JStr text)) params = Some (text @ '':'' @ template_stringify params)"
  by (simp add: subscriptionKey_def)

lemma subscribers_in_flight [simp]: "subscribers (s\<lparr>in_flight := fl\<rparr>) m = subscribers s m"
  by (simp add: subscribers_def)

lemma writable_in_flight [simp]: "writable (s\<lparr>in_flight := fl\<rparr>) = writable s"
  by (simp add: writable_def fun_eq_iff)








lemma bridge_idle_state:
  "bridge_idle = \<lparr> clients = [(''c1'', \<lparr>ws_open = True, subscriptions = []\<rparr>)],
       polymarketWs = Some True, orderbookSubscriptions = [], orderbookIntervals = [], timers = [],
       next_timer = 0, next_obj = 0, in_flight = [],
       sent = [(''c1'', JObj [(''type'', JStr ''connected''), (''clientId'', JStr ''c1''),
                              (''timestamp'', JStr ''t0'')])],
       upstream_sent = [], reconnects = 0, console = [UpstreamConnected, ClientConnected] \<rparr>"
  by (simp add: bridge_idle_def model_defs)

lemma bridged_state:
  "bridged = \<lparr> clients = [(''c1'', \<lparr>ws_open = True,
           subscriptions = [''orderbook:{'' @ [CHR 0x22] @ ''market_id'' @ [CHR 0x22] @ '':''
                             @ [CHR 0x22] @ ''M1'' @ [CHR 0x22] @ ''}'']\<rparr>),
                       (''c2'', \<lparr>ws_open = True, subscriptions = []\<rparr>)],
       polymarketWs = Some True, orderbookSubscriptions = [(M1, [''c1''])],
       orderbookIntervals = [(M1, 0)], timers = [(0, M1)],
       next_timer = 1, next_obj = 1, in_flight = [M1],
       sent = [(''c1'', JObj [(''type'', JStr ''connected''), (''clientId'', JStr ''c1''),
                              (''timestamp'', JStr ''t0'')]),
               (''c2'', JObj [(''type'', JStr ''connected''), (''clientId'', JStr ''c2''),
                              (''timestamp'', JStr ''t2'')]),
               (''c1'', JObj [(''type'', JStr ''subscribed''), (''channel'', JStr ''orderbook''),
                              (''params'', JObj [(''market_id'', JStr ''M1'')])])],
       upstream_sent = [(Some (JStr ''orderbook''), Some (JObj [(''market_id'', JStr ''M1'')]))],
       reconnects = 0,
       console = [UpstreamConnected, ClientConnected, ClientConnected, PollingStarted M1,
                  OrderbookSubscribed ''c1'' M1] \<rparr>"
  by (simp add: bridged_def subscribe_M1_def M1_def model_defs)

lemma writable_sendToClient [simp]: "writable (sendToClient s c d) = writable s"
  by (simp add: writable_def fun_eq_iff)

lemma sent_sendToClient:
  "sent (sendToClient s c d) = (if writable s c then sent s @ [(c, d)] else sent s)"
  by (simp add: sendToClient_def writable_def split: option.splits)

lemma fold_broadcast_sent:
  "sent (fold (\<lambda>entry s'. if P entry then sendToClient s' (fst entry) message else s') entries s)
     = sent s @ map (\<lambda>entry. (fst entry, message))
                    (filter (\<lambda>entry. P entry \<and> writable s (fst entry)) entries)"
proof (induction entries arbitrary: s)
  case Nil
  show ?case by simp
next
  case (Cons entry entries)
  show ?case
    by (simp add: Cons.IH sent_sendToClient)
qed

lemma update_subscriptions_keys:
  "map_of cls c = Some client \<Longrightarrow>
     map fst (AList.update c (client\<lparr>subscriptions := x\<rparr>) cls) = map fst cls"
  by (rule update_present_keys)

lemma update_subscriptions_open:
  assumes "map_of cls c = Some client"
  shows "(case map_of (AList.update c (client\<lparr>subscriptions := x\<rparr>) cls) k of
            None \<Rightarrow> False | Some cl \<Rightarrow> ws_open cl)
         = (case map_of cls k of None \<Rightarrow> False | Some cl \<Rightarrow> ws_open cl)"
  using assms by (cases "k = c") (simp_all add: update_conv')

lemma handleSubscribe_clients:
  "clients (final_state (handleSubscribe s c data)) = clients s \<or>
   (\<exists>client x. map_of (clients s) c = Some client \<and>
      clients (final_state (handleSubscribe s c data))
        = AList.update c (client\<lparr>subscriptions := x\<rparr>) (clients s))"
  by (cases "map_of (clients s) c")
     (auto simp: handleSubscribe_def Let_def split: option.splits)

lemma handleUnsubscribe_clients:
  "clients (final_state (handleUnsubscribe s c data)) = clients s \<or>
   (\<exists>client x. map_of (clients s) c = Some client \<and>
      clients (final_state (handleUnsubscribe s c data))
        = AList.update c (client\<lparr>subscriptions := x\<rparr>) (clients s))"
  by (cases "map_of (clients s) c")
     (auto simp: handleUnsubscribe_def Let_def split: option.splits)

lemma handleClientMessage_clients:
  "clients (final_state (handleClientMessage s c data)) = clients s \<or>
   (\<exists>client x. map_of (clients s) c = Some client \<and>
      clients (final_state (handleClientMessage s c data))
        = AList.update c (client\<lparr>subscriptions := x\<rparr>) (clients s))"
  using handleSubscribe_clients[of s c data] handleUnsubscribe_clients[of s c data]
  by (cases "map_of (clients s) c") (simp_all add: handleClientMessage_def)


lemma on_message_clients:
  "clients (final_state (on_message s c fr)) = clients s \<or>
   (\<exists>client x. map_of (clients s) c = Some client \<and>
      clients (final_state (on_message s c fr))
        = AList.update c (client\<lparr>subscriptions := x\<rparr>) (clients s))"
proof (cases fr)
  case Unparseable
  then show ?thesis by (simp add: on_message_def)
next
  case (Parsed data)
  have "clients (final_state (on_message s c (Parsed data)))
          = clients (final_state (handleClientMessage s c data))"
    by (cases "handleClientMessage s c data") (simp_all add: on_message_def)
  then show ?thesis
    using handleClientMessage_clients[of s c data] Parsed by simp
qed

lemma on_message_connections:
  "map fst (clients (final_state (on_message s c fr))) = map fst (clients s) \<and>
   (\<forall>k. writable (final_state (on_message s c fr)) k = writable s k)"
  using on_message_clients[of s c fr]
  by (auto simp: writable_def update_subscriptions_keys update_subscriptions_open)




lemma primitive_key: "primitive v \<Longrightarrow> market_key n v = Prim v"
  by (cases v) simp_all

lemma subscribers_fields:
  "orderbookSubscriptions s' = orderbookSubscriptions s \<Longrightarrow> subscribers s' m = subscribers s m"
  by (simp add: subscribers_def)

lemma orderbook_subscribe_subscriptions:
  assumes c: "map_of (clients s) c = Some client"
    and v: "get_prop params ''market_id'' = Some v" "truthy (Some v)" "primitive v"
  shows "orderbookSubscriptions (step s (ClientMessage c
            (Parsed (request ''subscribe'' (JStr ''orderbook'') params))))
         = orderbookSubscriptions (subscribeToOrderbook s c (Prim v))"
proof -
  have nn: "\<not> nullish (Some params)"
    using v(1) by (cases params) simp_all
  show ?thesis
    using c v nn
    by (simp add: on_message_def handleClientMessage_def handleSubscribe_def request_def
          Let_def primitive_key subscribe_subs)
qed

lemma orderbook_subscribe_subscribers:
  assumes c: "map_of (clients s) c = Some client"
    and v: "get_prop params ''market_id'' = Some v" "truthy (Some v)" "primitive v"
  shows "subscribers (step s (ClientMessage c
            (Parsed (request ''subscribe'' (JStr ''orderbook'') params)))) k
         = (if k = Prim v then set_add c (subscribers s (Prim v)) else subscribers s k)"
  using subscribers_fields[OF orderbook_subscribe_subscriptions[OF assms]]
  by (simp add: subscribers_subscribe)

lemma step_message_registered:
  assumes "map_of (clients s) k \<noteq> None"
  shows "map_of (clients (step s (ClientMessage c fr))) k \<noteq> None"
proof -
  have "map fst (clients (step s (ClientMessage c fr))) = map fst (clients s)"
    using on_message_connections[of s c fr] by simp
  then have "fst ` set (clients (step s (ClientMessage c fr))) = fst ` set (clients s)"
    by (metis set_map)
  then show ?thesis
    using assms by (simp only: map_of_eq_None_iff) simp
qed

















lemma closing_reachable:
  "run init [Connection ''c1'' ''t0'', ClientMessage ''c1'' (Parsed subscribe_M1),
             ClientNotOpen ''c1''] = closing"
  by (simp add: closing_def subscribed_def run_def)




text \<open>
  C9, as stated, fails twice over. With the bridge connected, client \<^verbatim>\<open>c1\<close> holds a
  subscription: an upstream frame that is not JSON is logged and published to nobody,
  although a subscription exists; and once the socket of \<^verbatim>\<open>c1\<close> has left the open state, a
  well-formed upstream message is written to nobody either, although \<^verbatim>\<open>c1\<close> still holds its
  subscription.
\<close>

theorem upstream_forward_counterexample:
  "polymarketWs bridged = Some True \<and>
   map_of (clients bridged) ''c1'' = Some \<lparr>ws_open = True, subscriptions = [key_M1]\<rparr> \<and>
   sent (step bridged (UpstreamMessage Unparseable)) = sent bridged \<and>
   polymarketWs bridged_closing = Some True \<and>
   map_of (clients bridged_closing) ''c1'' = Some \<lparr>ws_open = False, subscriptions = [key_M1]\<rparr> \<and>
   sent (step bridged_closing (UpstreamMessage (Parsed feed_message))) = sent bridged_closing"
  by (simp add: bridged_closing_def bridged_state on_upstream_message_def console_log_def
        broadcastPolymarketData_def isClientSubscribed_def sendToClient_def key_M1_def)

text \<open>
  C9, amended. While the bridge is connected, every upstream message that parses as JSON is
  written, as it is and without looking at which resource it concerns, to every registered
  connection that holds at least one subscription and whose socket is open, in the order
  of the connection registry, and to no other connection; when no connection holds a
  subscription it is written to no one. An upstream frame that does not parse as JSON adds
  one entry to the console and changes nothing else: it is written to no one.
\<close>

theorem upstream_forward_to_open_subscribers:
  "polymarketWs s = Some True \<Longrightarrow>
     sent (step s (UpstreamMessage (Parsed message))) =
       sent s @ map (\<lambda>entry. (fst entry, message))
                    (filter (\<lambda>entry. subscriptions (snd entry) \<noteq> [] \<and> writable s (fst entry))
                            (clients s)) \<and>
     ((\<forall>entry \<in> set (clients s). subscriptions (snd entry) = []) \<longrightarrow>
        sent (step s (UpstreamMessage (Parsed message))) = sent s) \<and>
     step s (UpstreamMessage Unparseable) = s\<lparr>console := console s @ [UpstreamMessageError]\<rparr> \<and>
     sent (step s (UpstreamMessage Unparseable)) = sent s"
proof -
  assume c: "polymarketWs s = Some True"
  then have eq: "sent (step s (UpstreamMessage (Parsed message))) =
       sent s @ map (\<lambda>entry. (fst entry, message))
                    (filter (\<lambda>entry. subscriptions (snd entry) \<noteq> [] \<and> writable s (fst entry))
                            (clients s))"
    by (simp add: on_upstream_message_def broadcastPolymarketData_def fold_broadcast_sent
          isClientSubscribed_def)
  have "filter (\<lambda>entry. subscriptions (snd entry) \<noteq> [] \<and> writable s (fst entry)) (clients s) = []"
    if "\<forall>entry \<in> set (clients s). subscriptions (snd entry) = []"
    using that by (simp add: filter_empty_conv)
  moreover have "step s (UpstreamMessage Unparseable) = s\<lparr>console := console s @ [UpstreamMessageError]\<rparr>"
    using c by (simp add: on_upstream_message_def console_log_def)
  ultimately show ?thesis using eq by simp
qed

theorem upstream_forward_to_open_subscribers_witness:
  "polymarketWs bridged = Some True \<and>
   sent (step bridged (UpstreamMessage (Parsed feed_message)))
     = sent bridged @ [(''c1'', feed_message)] \<and>
   sent (step bridged (UpstreamMessage Unparseable)) = sent bridged \<and>
   console (step bridged (UpstreamMessage Unparseable)) = console bridged @ [UpstreamMessageError] \<and>
   polymarketWs bridge_idle = Some True \<and>
   list_all (\<lambda>entry. subscriptions (snd entry) = []) (clients bridge_idle) \<and>
   sent (step bridge_idle (UpstreamMessage (Parsed feed_message))) = sent bridge_idle"
proof -
  have h1: "polymarketWs bridged = Some True" by (simp add: bridged_state)
  have h2: "polymarketWs bridge_idle = Some True" by (simp add: bridge_idle_state)
  have h0: "list_all (\<lambda>entry. subscriptions (snd entry) = []) (clients bridge_idle)"
    by (simp add: bridge_idle_state)
  then have h3: "\<forall>entry \<in> set (clients bridge_idle). subscriptions (snd entry) = []"
    by (simp only: list_all_iff)
  have f: "filter (\<lambda>entry. subscriptions (snd entry) \<noteq> [] \<and> writable bridged (fst entry))
             (clients bridged)
           = [(''c1'', \<lparr>ws_open = True, subscriptions = [key_M1]\<rparr>)]"
    by (simp add: bridged_state writable_def key_M1_def)
  from upstream_forward_to_open_subscribers[OF h1, of feed_message]
  have a: "sent (step bridged (UpstreamMessage (Parsed feed_message)))
             = sent bridged @ [(''c1'', feed_message)]"
    and b: "sent (step bridged (UpstreamMessage Unparseable)) = sent bridged"
    and c: "console (step bridged (UpstreamMessage Unparseable))
             = console bridged @ [UpstreamMessageError]"
    by (simp_all add: f)
  from upstream_forward_to_open_subscribers[OF h2, of feed_message] h3
  have d: "sent (step bridge_idle (UpstreamMessage (Parsed feed_message))) = sent bridge_idle"
    by blast
  show ?thesis using h0 h1 h2 a b c d by blast
qed

lemma keys_a_b:
  "subscriptionKey (Some (JStr ''orderbook'')) (Some params_a) = Some key_a"
  "subscriptionKey (Some (JStr ''orderbook'')) (Some params_b) = Some key_b"
  "key_a \<noteq> key_b"
  by (simp_all add: params_a_def params_b_def key_a_def key_b_def subscriptionKey_def
        quote_def json_escape_def)

lemma stringify_a_b: "stringify params_a \<noteq> stringify params_b"
  by (simp add: params_a_def params_b_def quote_def json_escape_def)

text \<open>
  C3, as stated, fails: two parameter maps with the same two fields in different orders
  give different subscription keys, and a client that subscribes with both holds both.
\<close>

theorem subscription_key_order_counterexample:
  "subscriptionKey (Some (JStr ''orderbook'')) (Some params_a) = Some key_a \<and>
   subscriptionKey (Some (JStr ''orderbook'')) (Some params_b) = Some key_b \<and>
   key_a \<noteq> key_b \<and>
   map_option subscriptions
     (map_of (clients (run init
        [Connection ''c1'' ''t0'',
         ClientMessage ''c1'' (Parsed (request ''subscribe'' (JStr ''orderbook'') params_a)),
         ClientMessage ''c1'' (Parsed (request ''subscribe'' (JStr ''orderbook'') params_b))]))
        ''c1'')
     = Some [key_a, key_b]"
proof -
  have "map_option subscriptions
     (map_of (clients (run init
        [Connection ''c1'' ''t0'',
         ClientMessage ''c1'' (Parsed (request ''subscribe'' (JStr ''orderbook'') params_a)),
         ClientMessage ''c1'' (Parsed (request ''subscribe'' (JStr ''orderbook'') params_b))]))
        ''c1'')
     = Some [key_a, key_b]"
    by (simp add: params_a_def params_b_def key_a_def key_b_def model_defs)
  then show ?thesis using keys_a_b by simp
qed

text \<open>
  C3, amended. The subscription key is not canonical under the order of the parameters:
  for every channel for which a key is built at all, the parameters
  \<^verbatim>\<open>{"market_id":"M1","depth":5}\<close> and \<^verbatim>\<open>{"depth":5,"market_id":"M1"}\<close> give different keys. The
  backing poll task is not chosen by that key but by \<^verbatim>\<open>params.market_id\<close> alone: in every
  reachable state, two \<^verbatim>\<open>orderbook\<close> subscribe requests of registered connections whose
  parameters carry the same market id, a non-empty string, a non-zero number or \<^verbatim>\<open>true\<close>,
  in whatever order and with whatever other fields, put both connections in the subscriber
  set of that market, which is polled by one task and one timer.
\<close>

theorem same_market_shares_poll_task:
  "map_of (clients (run init es)) c1 \<noteq> None \<Longrightarrow> map_of (clients (run init es)) c2 \<noteq> None \<Longrightarrow>
   get_prop p1 ''market_id'' = Some v \<Longrightarrow> get_prop p2 ''market_id'' = Some v \<Longrightarrow>
   truthy (Some v) \<Longrightarrow> primitive v \<Longrightarrow>
     (subscriptionKey channel (Some params_a) \<noteq> None \<longrightarrow>
        subscriptionKey channel (Some params_a) \<noteq> subscriptionKey channel (Some params_b)) \<and>
     c1 \<in> set (subscribers
             (run init (es @
                [ClientMessage c1 (Parsed (request ''subscribe'' (JStr ''orderbook'') p1)),
                 ClientMessage c2 (Parsed (request ''subscribe'' (JStr ''orderbook'') p2))]))
             (Prim v)) \<and>
     c2 \<in> set (subscribers
             (run init (es @
                [ClientMessage c1 (Parsed (request ''subscribe'' (JStr ''orderbook'') p1)),
                 ClientMessage c2 (Parsed (request ''subscribe'' (JStr ''orderbook'') p2))]))
             (Prim v)) \<and>
     has_poll_task
       (run init (es @
          [ClientMessage c1 (Parsed (request ''subscribe'' (JStr ''orderbook'') p1)),
           ClientMessage c2 (Parsed (request ''subscribe'' (JStr ''orderbook'') p2))]))
       (Prim v) \<and>
     length (poll_timers
       (run init (es @
          [ClientMessage c1 (Parsed (request ''subscribe'' (JStr ''orderbook'') p1)),
           ClientMessage c2 (Parsed (request ''subscribe'' (JStr ''orderbook'') p2))]))
       (Prim v)) = 1"
proof -
  assume r1: "map_of (clients (run init es)) c1 \<noteq> None"
    and r2: "map_of (clients (run init es)) c2 \<noteq> None"
    and v1: "get_prop p1 ''market_id'' = Some v" and v2: "get_prop p2 ''market_id'' = Some v"
    and tv: "truthy (Some v)" and pv: "primitive v"
  let ?e1 = "ClientMessage c1 (Parsed (request ''subscribe'' (JStr ''orderbook'') p1))"
  let ?e2 = "ClientMessage c2 (Parsed (request ''subscribe'' (JStr ''orderbook'') p2))"
  let ?s = "run init es"
  let ?s1 = "step ?s ?e1"
  let ?s2 = "step ?s1 ?e2"
  have run2: "run init (es @ [?e1, ?e2]) = ?s2"
    by (simp add: run_def)
  obtain client1 where k1: "map_of (clients ?s) c1 = Some client1"
    using r1 by blast
  have "map_of (clients ?s1) c2 \<noteq> None"
    using r2 by (rule step_message_registered)
  then obtain client2 where k2: "map_of (clients ?s1) c2 = Some client2"
    by blast
  have m1: "subscribers ?s1 (Prim v) = set_add c1 (subscribers ?s (Prim v))"
    using orderbook_subscribe_subscribers[OF k1 v1 tv pv, of "Prim v"] by simp
  have m2: "subscribers ?s2 (Prim v) = set_add c2 (subscribers ?s1 (Prim v))"
    using orderbook_subscribe_subscribers[OF k2 v2 tv pv, of "Prim v"] by simp
  have mem: "c1 \<in> set (subscribers ?s2 (Prim v))" "c2 \<in> set (subscribers ?s2 (Prim v))"
    unfolding m2 m1 by (simp_all add: set_add_def)
  then have ne: "subscribers ?s2 (Prim v) \<noteq> []" by auto
  have ok: "registry_ok ?s2"
    unfolding run2[symmetric] by (rule reachable_ok)
  have key: "subscriptionKey channel (Some params_a) \<noteq> subscriptionKey channel (Some params_b)"
    if built: "subscriptionKey channel (Some params_a) \<noteq> None"
  proof -
    obtain t where t: "template channel = Some t"
      using built by (auto simp: subscriptionKey_def)
    show ?thesis
      using stringify_a_b by (simp add: subscriptionKey_def t)
  qed
  have rest: "c1 \<in> set (subscribers ?s2 (Prim v)) \<and> c2 \<in> set (subscribers ?s2 (Prim v)) \<and>
     has_poll_task ?s2 (Prim v) \<and> length (poll_timers ?s2 (Prim v)) = 1"
    using mem ne has_poll_task_iff[OF ok, of "Prim v"] poll_timers_count[OF ok, of "Prim v"]
    by simp
  show ?thesis
    unfolding run2 using key rest by blast
qed

theorem same_market_shares_poll_task_witness:
  "map_of (clients (run init both_connected)) ''c1'' \<noteq> None \<and>
   map_of (clients (run init both_connected)) ''c2'' \<noteq> None \<and>
   get_prop params_a ''market_id'' = Some (JStr ''M1'') \<and>
   get_prop params_b ''market_id'' = Some (JStr ''M1'') \<and>
   truthy (Some (JStr ''M1'')) \<and> primitive (JStr ''M1'') \<and>
   subscriptionKey (Some (JStr ''orderbook'')) (Some params_a) \<noteq> None \<and>
   subscriptionKey (Some (JStr ''orderbook'')) (Some params_a)
     \<noteq> subscriptionKey (Some (JStr ''orderbook'')) (Some params_b) \<and>
   ''c1'' \<in> set (subscribers
             (run init (both_connected @
                [ClientMessage ''c1'' (Parsed (request ''subscribe'' (JStr ''orderbook'') params_a)),
                 ClientMessage ''c2'' (Parsed (request ''subscribe'' (JStr ''orderbook'') params_b))]))
             M1) \<and>
   ''c2'' \<in> set (subscribers
             (run init (both_connected @
                [ClientMessage ''c1'' (Parsed (request ''subscribe'' (JStr ''orderbook'') params_a)),
                 ClientMessage ''c2'' (Parsed (request ''subscribe'' (JStr ''orderbook'') params_b))]))
             M1) \<and>
   length (poll_timers
       (run init (both_connected @
          [ClientMessage ''c1'' (Parsed (request ''subscribe'' (JStr ''orderbook'') params_a)),
           ClientMessage ''c2'' (Parsed (request ''subscribe'' (JStr ''orderbook'') params_b))]))
       M1) = 1"
proof -
  have h1: "map_of (clients (run init both_connected)) ''c1'' \<noteq> None"
    and h2: "map_of (clients (run init both_connected)) ''c2'' \<noteq> None"
    by (simp_all add: both_connected_def on_connection_def console_log_def sendToClient_def init_def)
  have h3: "get_prop params_a ''market_id'' = Some (JStr ''M1'')"
    and h4: "get_prop params_b ''market_id'' = Some (JStr ''M1'')"
    by (simp_all add: params_a_def params_b_def)
  have h5: "truthy (Some (JStr ''M1''))" and h6: "primitive (JStr ''M1'')"
    by simp_all
  have h7: "subscriptionKey (Some (JStr ''orderbook'')) (Some params_a) \<noteq> None"
    by (simp add: subscriptionKey_def)
  show ?thesis
    using h1 h2 h3 h4 h7
      same_market_shares_poll_task[OF h1 h2 h3 h4 h5 h6, of "Some (JStr ''orderbook'')"]
    by (simp add: M1_def)
qed

end
